theory Spec2Isabelle
  imports Main "HOL-Library.Word"
begin

section \<open>uLogger: the log record buffer of uLogger.hpp\<close>

text \<open>
  A shallow embedding of \<^verbatim>\<open>struct LogBuffer\<close> (sources/uLogger/inc/uLogger.hpp).
  Platform facts the header relies on are written out where they are used:
  \<^verbatim>\<open>size_t\<close> is 64 bits wide and wraps, \<^verbatim>\<open>int\<close> is 32 bits wide, the C library is
  glibc (what \<^verbatim>\<open>snprintf\<close> returns, how \<^verbatim>\<open>%p\<close> and \<^verbatim>\<open>%.8f\<close> render), and
  \<^verbatim>\<open>system_clock\<close> ticks in nanoseconds. The two mutexes only serialise callers; the
  model is sequential and leaves them out.
\<close>

subsection \<open>Severity levels and flush policy\<close>

datatype LogLevel =
  EC_VERBOSE | EC_DEBUG | EC_INFO | EC_WARNING | EC_ERROR | EC_FATAL | EC_FIXED

text \<open>The enumerators' underlying values, which \<^verbatim>\<open><\<close> and \<^verbatim>\<open>>=\<close> compare.\<close>

fun level_value :: "LogLevel \<Rightarrow> nat" where
  "level_value EC_VERBOSE = 0"
| "level_value EC_DEBUG = 1"
| "level_value EC_INFO = 2"
| "level_value EC_WARNING = 3"
| "level_value EC_ERROR = 4"
| "level_value EC_FATAL = 5"
| "level_value EC_FIXED = 6"

definition level_lt :: "LogLevel \<Rightarrow> LogLevel \<Rightarrow> bool" where
  "level_lt a b = (level_value a < level_value b)"

definition level_ge :: "LogLevel \<Rightarrow> LogLevel \<Rightarrow> bool" where
  "level_ge a b = (level_value a \<ge> level_value b)"

abbreviation LOG_VERBOSE :: LogLevel where "LOG_VERBOSE \<equiv> EC_VERBOSE"
abbreviation LOG_DEBUG :: LogLevel where "LOG_DEBUG \<equiv> EC_DEBUG"
abbreviation LOG_INFO :: LogLevel where "LOG_INFO \<equiv> EC_INFO"
abbreviation LOG_WARNING :: LogLevel where "LOG_WARNING \<equiv> EC_WARNING"
abbreviation LOG_ERROR :: LogLevel where "LOG_ERROR \<equiv> EC_ERROR"
abbreviation LOG_FATAL :: LogLevel where "LOG_FATAL \<equiv> EC_FATAL"
abbreviation LOG_FIXED :: LogLevel where "LOG_FIXED \<equiv> EC_FIXED"

fun toString :: "LogLevel \<Rightarrow> string" where
  "toString EC_VERBOSE = ''VERBOSE''"
| "toString EC_DEBUG = ''  DEBUG''"
| "toString EC_INFO = ''   INFO''"
| "toString EC_WARNING = ''WARNING''"
| "toString EC_ERROR = ''  ERROR''"
| "toString EC_FATAL = ''  FATAL''"
| "toString EC_FIXED = ''  FIXED''"

definition ESC :: char where
  "ESC = CHR 0x1B"

fun getColor :: "LogLevel \<Rightarrow> string" where
  "getColor EC_VERBOSE = ESC # ''[90m''"
| "getColor EC_DEBUG = ESC # ''[36m''"
| "getColor EC_INFO = ESC # ''[32m''"
| "getColor EC_WARNING = ESC # ''[33m''"
| "getColor EC_ERROR = ESC # ''[31m''"
| "getColor EC_FATAL = ESC # ''[91m''"
| "getColor EC_FIXED = ESC # ''[97m''"

datatype FlushPolicy = ALWAYS | ERROR_AND_ABOVE | NEVER

subsection \<open>C strings, machine sizes and \<^verbatim>\<open>snprintf\<close>\<close>

definition NUL :: char where
  "NUL = CHR 0x00"

text \<open>What a \<^verbatim>\<open>%s\<close> conversion or \<^verbatim>\<open>operator<<(const char*)\<close> reads from a
  character array: the bytes before the first terminator.\<close>

definition c_str :: "string \<Rightarrow> string" where
  "c_str bytes = takeWhile (\<lambda>c. c \<noteq> NUL) bytes"

definition BUFFER_SIZE :: nat where
  "BUFFER_SIZE = 4096"

definition SIZE_RANGE :: nat where
  "SIZE_RANGE = 2 ^ 64"

definition INT_MAX :: nat where
  "INT_MAX = 2147483647"

text \<open>Arithmetic on \<^verbatim>\<open>size_t\<close>: modulo \<open>2 ^ 64\<close>.\<close>

definition size_t_sub :: "nat \<Rightarrow> nat \<Rightarrow> nat" where
  "size_t_sub a b = (a + SIZE_RANGE - b mod SIZE_RANGE) mod SIZE_RANGE"

definition size_t_add :: "nat \<Rightarrow> nat \<Rightarrow> nat" where
  "size_t_add a b = (a + b) mod SIZE_RANGE"

text \<open>\<^verbatim>\<open>static_cast<size_t>(written)\<close> of an \<^verbatim>\<open>int\<close>.\<close>

definition size_t_of_int :: "int \<Rightarrow> nat" where
  "size_t_of_int i = nat (i mod int SIZE_RANGE)"

text \<open>Storing bytes into an array from an offset on; the array keeps its length when the
  bytes fit.\<close>

definition write_at :: "string \<Rightarrow> nat \<Rightarrow> string \<Rightarrow> string" where
  "write_at buf off bytes = take off buf @ bytes @ drop (off + length bytes) buf"

text \<open>
  \<^verbatim>\<open>snprintf(buf + off, n, fmt, ...)\<close> where \<open>rendered\<close> is the text the format and
  its arguments produce. At most \<open>n - 1\<close> bytes of it are stored, then a terminator;
  nothing is stored when \<open>n = 0\<close>. The return value is the full length of the
  rendered text, or \<open>-1\<close> when that length does not fit an \<^verbatim>\<open>int\<close>.
\<close>

definition snprintf :: "string \<Rightarrow> nat \<Rightarrow> nat \<Rightarrow> string \<Rightarrow> string \<times> int" where
  "snprintf buf off n rendered =
     (if n = 0 then buf else write_at buf off (take (n - 1) rendered @ [NUL]),
      if length rendered \<le> INT_MAX then int (length rendered) else - 1)"

subsection \<open>Rendering of the conversions the header uses\<close>

definition digit_char :: "nat \<Rightarrow> char" where
  "digit_char d = ''0123456789'' ! d"

definition hex_upper_char :: "nat \<Rightarrow> char" where
  "hex_upper_char d = ''0123456789ABCDEF'' ! d"

definition hex_lower_char :: "nat \<Rightarrow> char" where
  "hex_lower_char d = ''0123456789abcdef'' ! d"

fun dec :: "nat \<Rightarrow> string" where
  "dec n = (if n < 10 then [digit_char n] else dec (n div 10) @ [digit_char (n mod 10)])"

fun hex_upper :: "nat \<Rightarrow> string" where
  "hex_upper n =
     (if n < 16 then [hex_upper_char n] else hex_upper (n div 16) @ [hex_upper_char (n mod 16)])"

fun hex_lower :: "nat \<Rightarrow> string" where
  "hex_lower n =
     (if n < 16 then [hex_lower_char n] else hex_lower (n div 16) @ [hex_lower_char (n mod 16)])"

declare dec.simps [simp del] hex_upper.simps [simp del] hex_lower.simps [simp del]

definition dec_int :: "int \<Rightarrow> string" where
  "dec_int i = (if i < 0 then ''-'' @ dec (nat (- i)) else dec (nat i))"

definition zero_pad :: "nat \<Rightarrow> string \<Rightarrow> string" where
  "zero_pad w s = replicate (w - length s) (CHR ''0'') @ s"

text \<open>\<^verbatim>\<open>"%c "\<close>\<close>

definition fmt_c :: "char \<Rightarrow> string" where
  "fmt_c c = [c, CHR '' '']"

text \<open>\<^verbatim>\<open>"%s "\<close> on a pointer to the given bytes.\<close>

definition fmt_s :: "string \<Rightarrow> string" where
  "fmt_s bytes = c_str bytes @ '' ''"

text \<open>\<^verbatim>\<open>static_cast<int>(n)\<close> of a \<^verbatim>\<open>size_t\<close>: the low 32 bits, as two's complement.\<close>

definition int_of_size_t :: "nat \<Rightarrow> int" where
  "int_of_size_t n =
     (let m = n mod 2 ^ 32 in if m < 2 ^ 31 then int m else int m - 2 ^ 32)"

text \<open>\<^verbatim>\<open>"%.*s "\<close>: at most \<open>prec\<close> bytes, and none after a terminator; a negative
  precision counts as none given.\<close>

definition fmt_prec_s :: "int \<Rightarrow> string \<Rightarrow> string" where
  "fmt_prec_s prec bytes =
     (if prec < 0 then c_str bytes else take (nat prec) (c_str bytes)) @ '' ''"

text \<open>\<^verbatim>\<open>"%lld "\<close>, \<^verbatim>\<open>"%llu "\<close> and \<^verbatim>\<open>"%zu "\<close> read the same 64-bit argument, as two's
  complement or as unsigned.\<close>

definition fmt_lld :: "64 word \<Rightarrow> string" where
  "fmt_lld w = dec_int (sint w) @ '' ''"

definition fmt_llu :: "64 word \<Rightarrow> string" where
  "fmt_llu w = dec (unat w) @ '' ''"

definition fmt_zu :: "64 word \<Rightarrow> string" where
  "fmt_zu w = dec (unat w) @ '' ''"

text \<open>\<^verbatim>\<open>"0x%llX "\<close> and \<^verbatim>\<open>"0x%zX "\<close>\<close>

definition fmt_llX :: "64 word \<Rightarrow> string" where
  "fmt_llX w = ''0x'' @ hex_upper (unat w) @ '' ''"

definition fmt_zX :: "64 word \<Rightarrow> string" where
  "fmt_zX w = ''0x'' @ hex_upper (unat w) @ '' ''"

text \<open>\<^verbatim>\<open>"%p "\<close> as glibc prints an address.\<close>

definition fmt_p :: "64 word \<Rightarrow> string" where
  "fmt_p a = (if a = 0 then ''(nil)'' else ''0x'' @ hex_lower (unat a)) @ '' ''"

text \<open>
  A \<^verbatim>\<open>double\<close> by its value: \<open>Finite neg m e\<close> is \<open>\<plusminus> m * 2 ^ e\<close> (the sign bit, an
  integer significand and a binary exponent), besides the infinities and NaN.
\<close>

datatype double = Finite bool nat int | Infinity bool | NaN bool

text \<open>The finite values a binary64 \<^verbatim>\<open>double\<close> has: a significand of at most 53 bits
  and an exponent within the format's range.\<close>

fun is_double :: "double \<Rightarrow> bool" where
  "is_double (Finite neg m e) = (m < 2 ^ 53 \<and> - 1074 \<le> e \<and> e \<le> 971)"
| "is_double (Infinity neg) = True"
| "is_double (NaN neg) = True"

text \<open>The value times \<open>10 ^ 8\<close>, rounded to the nearest integer, ties to even.\<close>

definition scaled8 :: "nat \<Rightarrow> int \<Rightarrow> nat" where
  "scaled8 m e =
     (if e \<ge> 0 then m * 2 ^ nat e * 10 ^ 8
      else let num = m * 10 ^ 8; den = 2 ^ nat (- e); q = num div den; r = num mod den
           in if 2 * r > den \<or> (2 * r = den \<and> odd q) then q + 1 else q)"

definition sign_text :: "bool \<Rightarrow> string" where
  "sign_text neg = (if neg then ''-'' else [])"

text \<open>\<^verbatim>\<open>"%.8f "\<close>\<close>

fun fmt_f8 :: "double \<Rightarrow> string" where
  "fmt_f8 (Finite neg m e) =
     sign_text neg @ dec (scaled8 m e div 10 ^ 8) @ ''.'' @
     zero_pad 8 (dec (scaled8 m e mod 10 ^ 8)) @ '' ''"
| "fmt_f8 (Infinity neg) = sign_text neg @ ''inf ''"
| "fmt_f8 (NaN neg) = sign_text neg @ ''nan ''"

subsection \<open>The file stream and the buffer\<close>

text \<open>
  \<^verbatim>\<open>std::ofstream logFile\<close>: whether a file is open, its name, and the text inserted
  with \<^verbatim>\<open><<\<close> that has not been flushed yet. Stream error flags are left out: an
  insertion into an open stream is taken to succeed. When the library hands text to the
  file ahead of a flush (its buffer is full, or an insertion is large) is left out too:
  inserted text stays pending until \<^verbatim>\<open>flush\<close> or \<^verbatim>\<open>close\<close>, so only the file's
  text followed by the pending text is meaningful before a flush.
\<close>

record ofstream =
  is_open :: bool
  path :: string
  pending :: string

record LogBuffer =
  buffer :: string
  size_used :: nat
  currentLevel :: LogLevel
  consoleThreshold :: LogLevel
  fileThreshold :: LogLevel
  logFile :: ofstream
  fileLoggingEnabled :: bool
  useColors :: bool
  includeDate :: bool
  truncated :: bool
  flushPolicy :: FlushPolicy
  cachedTimestamp :: string
  lastTimestampUpdate :: nat

text \<open>The member initialisers: a zeroed array, an unopened stream, a cache stamped with
  the epoch. Times are nanoseconds since the epoch.\<close>

definition LogBuffer_init :: LogBuffer where
  "LogBuffer_init =
     \<lparr> buffer = replicate BUFFER_SIZE NUL,
       size_used = 0,
       currentLevel = LOG_INFO,
       consoleThreshold = LOG_VERBOSE,
       fileThreshold = LOG_VERBOSE,
       logFile = \<lparr> is_open = False, path = [], pending = [] \<rparr>,
       fileLoggingEnabled = False,
       useColors = True,
       includeDate = True,
       truncated = False,
       flushPolicy = ERROR_AND_ABOVE,
       cachedTimestamp = [],
       lastTimestampUpdate = 0 \<rparr>"

definition reset :: "LogBuffer \<Rightarrow> LogBuffer" where
  "reset s =
     s\<lparr> size_used := 0,
        buffer := (buffer s)[0 := NUL],
        currentLevel := LOG_INFO,
        truncated := False \<rparr>"

text \<open>\<^verbatim>\<open>safeAppend\<close> returns the updated object and the number of bytes counted.\<close>

definition safeAppend :: "int \<Rightarrow> LogBuffer \<Rightarrow> LogBuffer \<times> nat" where
  "safeAppend written s =
     (if written > 0 then
        let available = size_t_sub (size_t_sub BUFFER_SIZE (size_used s)) 1;
            toWrite = min (size_t_of_int written) available;
            s1 = (if size_t_of_int written > available then s\<lparr>truncated := True\<rparr> else s)
        in (s1\<lparr>size_used := size_t_add (size_used s1) toWrite\<rparr>, toWrite)
      else (s, 0))"

text \<open>The two statements every append ends with: format into the free part of the array,
  then count what was stored.\<close>

definition format_into :: "string \<Rightarrow> LogBuffer \<Rightarrow> LogBuffer" where
  "format_into rendered s =
     (let (buf, written) =
            snprintf (buffer s) (size_used s) (size_t_sub BUFFER_SIZE (size_used s)) rendered
      in fst (safeAppend written (s\<lparr>buffer := buf\<rparr>)))"

text \<open>\<^verbatim>\<open>append(char c)\<close>\<close>

definition append_char :: "char \<Rightarrow> LogBuffer \<Rightarrow> LogBuffer" where
  "append_char c s =
     (if size_used s \<ge> BUFFER_SIZE - 2 then s\<lparr>truncated := True\<rparr>
      else format_into (fmt_c c) s)"

text \<open>\<^verbatim>\<open>append(const char* text)\<close>; \<open>None\<close> is the null pointer.\<close>

definition append_text :: "string option \<Rightarrow> LogBuffer \<Rightarrow> LogBuffer" where
  "append_text text s =
     (if text = None \<or> size_used s \<ge> BUFFER_SIZE - 1 then
        (if size_used s \<ge> BUFFER_SIZE - 1 then s\<lparr>truncated := True\<rparr> else s)
      else format_into (fmt_s (the text)) s)"

text \<open>\<^verbatim>\<open>append(const std::string& text)\<close>\<close>

definition append_string :: "string \<Rightarrow> LogBuffer \<Rightarrow> LogBuffer" where
  "append_string text s = (if text \<noteq> [] then append_text (Some text) s else s)"

text \<open>\<^verbatim>\<open>append(const std::string_view& text_view)\<close>\<close>

definition append_string_view :: "string \<Rightarrow> LogBuffer \<Rightarrow> LogBuffer" where
  "append_string_view text_view s =
     (if text_view \<noteq> [] then
        (if length text_view < size_t_sub (size_t_sub BUFFER_SIZE (size_used s)) 1
         then format_into (fmt_prec_s (int_of_size_t (length text_view)) text_view) s
         else s\<lparr>truncated := True\<rparr>)
      else s)"

text \<open>\<^verbatim>\<open>append(bool value)\<close>\<close>

definition append_bool :: "bool \<Rightarrow> LogBuffer \<Rightarrow> LogBuffer" where
  "append_bool v s =
     (if size_used s \<ge> BUFFER_SIZE - 10 then s\<lparr>truncated := True\<rparr>
      else format_into (fmt_s (if v then ''true'' else ''false'')) s)"

text \<open>
  The integral template: which of its three formats an instantiation picks, and the
  argument after \<^verbatim>\<open>static_cast<long long>(value)\<close>.
\<close>

datatype integral_kind = Is_size_t | Is_signed | Is_unsigned

fun integral_format :: "integral_kind \<Rightarrow> 64 word \<Rightarrow> string" where
  "integral_format Is_size_t = fmt_zu"
| "integral_format Is_signed = fmt_lld"
| "integral_format Is_unsigned = fmt_llu"

definition append_integral :: "integral_kind \<Rightarrow> 64 word \<Rightarrow> LogBuffer \<Rightarrow> LogBuffer" where
  "append_integral k v s =
     (if size_used s \<ge> BUFFER_SIZE - 25 then s\<lparr>truncated := True\<rparr>
      else format_into (integral_format k v) s)"

text \<open>\<^verbatim>\<open>appendHex\<close>, the argument after \<^verbatim>\<open>static_cast<unsigned long long>(value)\<close>.\<close>

fun hex_format :: "integral_kind \<Rightarrow> 64 word \<Rightarrow> string" where
  "hex_format Is_size_t = fmt_zX"
| "hex_format Is_signed = fmt_llX"
| "hex_format Is_unsigned = fmt_llX"

definition appendHex :: "integral_kind \<Rightarrow> 64 word \<Rightarrow> LogBuffer \<Rightarrow> LogBuffer" where
  "appendHex k v s =
     (if size_used s \<ge> BUFFER_SIZE - 25 then s\<lparr>truncated := True\<rparr>
      else format_into (hex_format k v) s)"

text \<open>The floating-point template, the argument after \<^verbatim>\<open>static_cast<double>(value)\<close>.\<close>

definition append_floating :: "double \<Rightarrow> LogBuffer \<Rightarrow> LogBuffer" where
  "append_floating v s =
     (if size_used s \<ge> BUFFER_SIZE - 30 then s\<lparr>truncated := True\<rparr>
      else format_into (fmt_f8 v) s)"

text \<open>The pointer template, by the address.\<close>

definition append_pointer :: "64 word \<Rightarrow> LogBuffer \<Rightarrow> LogBuffer" where
  "append_pointer ptr s =
     (if size_used s \<ge> BUFFER_SIZE - 20 then s\<lparr>truncated := True\<rparr>
      else format_into (fmt_p ptr) s)"

text \<open>The bytes counted so far, and the text \<^verbatim>\<open>oss << buffer\<close> reads.\<close>

definition record_bytes :: "LogBuffer \<Rightarrow> string" where
  "record_bytes s = take (size_used s) (buffer s)"

definition record_text :: "LogBuffer \<Rightarrow> string" where
  "record_text s = c_str (buffer s)"

subsection \<open>Values to append\<close>

text \<open>One constructor for each \<^verbatim>\<open>append\<close> overload and for \<^verbatim>\<open>appendHex\<close>.\<close>

datatype logval =
    VChar char
  | VText "string option"
  | VString string
  | VStringView string
  | VBool bool
  | VIntegral integral_kind "64 word"
  | VHex integral_kind "64 word"
  | VFloating double
  | VPointer "64 word"

fun append_value :: "logval \<Rightarrow> LogBuffer \<Rightarrow> LogBuffer" where
  "append_value (VChar c) = append_char c"
| "append_value (VText t) = append_text t"
| "append_value (VString t) = append_string t"
| "append_value (VStringView t) = append_string_view t"
| "append_value (VBool b) = append_bool b"
| "append_value (VIntegral k v) = append_integral k v"
| "append_value (VHex k v) = appendHex k v"
| "append_value (VFloating d) = append_floating d"
| "append_value (VPointer a) = append_pointer a"


subsection \<open>The clock and the timestamp cache\<close>

text \<open>\<^verbatim>\<open>std::tm\<close>, the fields the two \<^verbatim>\<open>put_time\<close> formats read.\<close>

record tm =
  tm_sec :: nat
  tm_min :: nat
  tm_hour :: nat
  tm_mday :: nat
  tm_mon :: nat
  tm_year :: nat

text \<open>
  What one call reads from its surroundings: the clock (nanoseconds since the epoch),
  the time zone rules behind \<^verbatim>\<open>localtime_r\<close> (seconds since the epoch to calendar
  fields), and whether the operating system lets a file of a given name be opened.
\<close>

record env =
  now :: nat
  localtime :: "nat \<Rightarrow> tm"
  open_ok :: "string \<Rightarrow> bool"

text \<open>\<^verbatim>\<open>put_time(&tm, "%Y-%m-%d %H:%M:%S")\<close> and \<^verbatim>\<open>put_time(&tm, "%H:%M:%S")\<close>\<close>

definition put_time_HMS :: "tm \<Rightarrow> string" where
  "put_time_HMS t =
     zero_pad 2 (dec (tm_hour t)) @ '':'' @ zero_pad 2 (dec (tm_min t)) @ '':'' @
     zero_pad 2 (dec (tm_sec t))"

definition put_time_Ymd_HMS :: "tm \<Rightarrow> string" where
  "put_time_Ymd_HMS t =
     dec (tm_year t + 1900) @ ''-'' @ zero_pad 2 (dec (tm_mon t + 1)) @ ''-'' @
     zero_pad 2 (dec (tm_mday t)) @ '' '' @ put_time_HMS t"

text \<open>\<^verbatim>\<open>duration_cast<milliseconds>\<close> of a difference of two time points: division of
  the nanoseconds by \<open>10 ^ 6\<close>, truncating towards zero.\<close>

definition elapsed_ms :: "nat \<Rightarrow> nat \<Rightarrow> int" where
  "elapsed_ms t prev =
     (let d = int t - int prev in if d \<ge> 0 then d div 1000000 else - ((- d) div 1000000))"

text \<open>The text a fresh computation produces.\<close>

definition format_timestamp :: "env \<Rightarrow> bool \<Rightarrow> string" where
  "format_timestamp e withDate =
     (let micros = (now e div 1000) mod 1000000;
          t = now e div 1000000000;
          tm = localtime e t
      in (if withDate then put_time_Ymd_HMS tm else put_time_HMS tm) @
         ''.'' @ zero_pad 6 (dec micros) @ '' | '')"

text \<open>\<^verbatim>\<open>getTimestamp\<close> returns the text and the object with its (mutable) cache.\<close>

definition getTimestamp :: "env \<Rightarrow> LogBuffer \<Rightarrow> string \<times> LogBuffer" where
  "getTimestamp e s =
     (if cachedTimestamp s \<noteq> [] \<and> elapsed_ms (now e) (lastTimestampUpdate s) < 1
      then (cachedTimestamp s, s)
      else let result = format_timestamp e (includeDate s)
           in (result, s\<lparr>cachedTimestamp := result, lastTimestampUpdate := now e\<rparr>))"

subsection \<open>Sinks and emission\<close>

text \<open>
  The object together with what its sinks write to: the bytes sent to standard output
  and the files on disk, by name.
\<close>

record sys =
  logger :: LogBuffer
  stdout :: string
  disk :: "string \<Rightarrow> string option"

definition sys_init :: sys where
  "sys_init = \<lparr> logger = LogBuffer_init, stdout = [], disk = (\<lambda>_. None) \<rparr>"

text \<open>\<^verbatim>\<open>logFile << text\<close>\<close>

definition ofstream_insert :: "string \<Rightarrow> ofstream \<Rightarrow> ofstream" where
  "ofstream_insert text f = (if is_open f then f\<lparr>pending := pending f @ text\<rparr> else f)"

text \<open>\<^verbatim>\<open>logFile.flush()\<close>: the pending text goes to the end of the file.\<close>

definition ofstream_flush :: "ofstream \<Rightarrow> (string \<Rightarrow> string option) \<Rightarrow>
    ofstream \<times> (string \<Rightarrow> string option)" where
  "ofstream_flush f d =
     (if is_open f
      then (f\<lparr>pending := []\<rparr>,
            d(path f := Some ((case d (path f) of None \<Rightarrow> [] | Some old \<Rightarrow> old) @ pending f)))
      else (f, d))"

text \<open>\<^verbatim>\<open>logFile.close()\<close>\<close>

definition ofstream_close :: "ofstream \<Rightarrow> (string \<Rightarrow> string option) \<Rightarrow>
    ofstream \<times> (string \<Rightarrow> string option)" where
  "ofstream_close f d =
     (if is_open f
      then (let (f1, d1) = ofstream_flush f d in (f1\<lparr>is_open := False\<rparr>, d1))
      else (f, d))"

text \<open>\<^verbatim>\<open>logFile.open(name, std::ios::out | std::ios::app)\<close>: fails on a stream that is
  open already; otherwise the file is created when it does not exist and kept when it
  does.\<close>

definition ofstream_open :: "string \<Rightarrow> bool \<Rightarrow> ofstream \<Rightarrow> (string \<Rightarrow> string option) \<Rightarrow>
    ofstream \<times> (string \<Rightarrow> string option)" where
  "ofstream_open name ok f d =
     (if is_open f then (f, d)
      else if ok
      then (f\<lparr>is_open := True, path := name, pending := []\<rparr>,
            d(name := Some (case d name of None \<Rightarrow> [] | Some old \<Rightarrow> old)))
      else (f, d))"

fun shouldFlush :: "FlushPolicy \<Rightarrow> LogLevel \<Rightarrow> bool" where
  "shouldFlush ALWAYS lvl = True"
| "shouldFlush ERROR_AND_ABOVE lvl = level_ge lvl LOG_ERROR"
| "shouldFlush NEVER lvl = False"

text \<open>The line \<^verbatim>\<open>printUnsafe\<close> builds once, from the timestamp it obtained.\<close>

definition fullMessage :: "string \<Rightarrow> LogBuffer \<Rightarrow> string" where
  "fullMessage timestamp s =
     timestamp @ toString (currentLevel s) @ '' | '' @ record_text s @
     (if truncated s then '' [TRUNCATED]'' else []) @ [CHR 0x0A]"

text \<open>What \<^verbatim>\<open>printf\<close> sends to standard output for a line.\<close>

definition console_text :: "LogBuffer \<Rightarrow> string \<Rightarrow> string" where
  "console_text s msg =
     (if useColors s then c_str (getColor (currentLevel s)) @ c_str msg @ ESC # ''[0m''
      else c_str msg)"

definition printUnsafe :: "env \<Rightarrow> sys \<Rightarrow> sys" where
  "printUnsafe e w =
     (let s = logger w in
      if level_lt (currentLevel s) (consoleThreshold s) \<and>
         (\<not> fileLoggingEnabled s \<or> level_lt (currentLevel s) (fileThreshold s))
      then w\<lparr>logger := reset s\<rparr>
      else
        let (timestamp, s1) = getTimestamp e s;
            msg = fullMessage timestamp s1;
            out1 = (if level_ge (currentLevel s1) (consoleThreshold s1)
                    then stdout w @ console_text s1 msg else stdout w);
            (f2, d2) =
              (if fileLoggingEnabled s1 \<and> level_ge (currentLevel s1) (fileThreshold s1) \<and>
                  is_open (logFile s1)
               then let f = ofstream_insert msg (logFile s1)
                    in if shouldFlush (flushPolicy s1) (currentLevel s1)
                       then ofstream_flush f (disk w) else (f, disk w)
               else (logFile s1, disk w))
        in \<lparr> logger = reset (s1\<lparr>logFile := f2\<rparr>), stdout = out1, disk = d2 \<rparr>)"

text \<open>\<^verbatim>\<open>print\<close> takes the lock and calls \<^verbatim>\<open>printUnsafe\<close>.\<close>

definition print :: "env \<Rightarrow> sys \<Rightarrow> sys" where
  "print e w = printUnsafe e w"

definition flush :: "sys \<Rightarrow> sys" where
  "flush w =
     (if is_open (logFile (logger w))
      then let (f, d) = ofstream_flush (logFile (logger w)) (disk w)
           in w\<lparr>logger := (logger w)\<lparr>logFile := f\<rparr>, disk := d\<rparr>
      else w)"

definition setLevel :: "LogLevel \<Rightarrow> LogBuffer \<Rightarrow> LogBuffer" where
  "setLevel level s = s\<lparr>currentLevel := level\<rparr>"

definition setConsoleThreshold :: "LogLevel \<Rightarrow> LogBuffer \<Rightarrow> LogBuffer" where
  "setConsoleThreshold level s = s\<lparr>consoleThreshold := level\<rparr>"

definition setFileThreshold :: "LogLevel \<Rightarrow> LogBuffer \<Rightarrow> LogBuffer" where
  "setFileThreshold level s = s\<lparr>fileThreshold := level\<rparr>"

definition setFlushPolicy :: "FlushPolicy \<Rightarrow> LogBuffer \<Rightarrow> LogBuffer" where
  "setFlushPolicy policy s = s\<lparr>flushPolicy := policy\<rparr>"

text \<open>The name \<^verbatim>\<open>enableFileLogging\<close> makes up when it is given none:
  \<^verbatim>\<open>"log_" << put_time(&tm, "%Y%m%d_%H%M%S") << ".txt"\<close>\<close>

definition default_filename :: "env \<Rightarrow> string" where
  "default_filename e =
     (let t = localtime e (now e div 1000000000)
      in ''log_'' @ dec (tm_year t + 1900) @ zero_pad 2 (dec (tm_mon t + 1)) @
         zero_pad 2 (dec (tm_mday t)) @ ''_'' @ zero_pad 2 (dec (tm_hour t)) @
         zero_pad 2 (dec (tm_min t)) @ zero_pad 2 (dec (tm_sec t)) @ ''.txt'')"

definition enableFileLogging :: "string \<Rightarrow> env \<Rightarrow> sys \<Rightarrow> sys" where
  "enableFileLogging filename e w =
     (if \<not> fileLoggingEnabled (logger w) then
        let logFilename = (if filename = [] then default_filename e else filename);
            (f, d) = ofstream_open logFilename (open_ok e logFilename) (logFile (logger w)) (disk w)
        in w\<lparr>logger := (logger w)\<lparr>logFile := f, fileLoggingEnabled := is_open f\<rparr>, disk := d\<rparr>
      else w)"

definition disableFileLogging :: "sys \<Rightarrow> sys" where
  "disableFileLogging w =
     (let (f, d) =
            (if is_open (logFile (logger w))
             then (let (f1, d1) = ofstream_flush (logFile (logger w)) (disk w)
                   in ofstream_close f1 d1)
             else (logFile (logger w), disk w))
      in w\<lparr>logger := (logger w)\<lparr>logFile := f, fileLoggingEnabled := False\<rparr>, disk := d\<rparr>)"

subsection \<open>Sequences of calls\<close>

text \<open>The calls a holder of the object can make, each with what it reads from its
  surroundings; \<open>SetUseColors\<close> and \<open>SetIncludeDate\<close> are the two fields
  \<^verbatim>\<open>LOG_INIT\<close> assigns directly.\<close>

datatype call =
    Append logval
  | Print env
  | Reset
  | Flush
  | SetLevel LogLevel
  | SetConsoleThreshold LogLevel
  | SetFileThreshold LogLevel
  | SetFlushPolicy FlushPolicy
  | SetUseColors bool
  | SetIncludeDate bool
  | EnableFileLogging string env
  | DisableFileLogging

definition on_logger :: "(LogBuffer \<Rightarrow> LogBuffer) \<Rightarrow> sys \<Rightarrow> sys" where
  "on_logger f w = w\<lparr>logger := f (logger w)\<rparr>"

fun exec :: "call \<Rightarrow> sys \<Rightarrow> sys" where
  "exec (Append v) w = on_logger (append_value v) w"
| "exec (Print e) w = print e w"
| "exec Reset w = on_logger reset w"
| "exec Flush w = flush w"
| "exec (SetLevel l) w = on_logger (setLevel l) w"
| "exec (SetConsoleThreshold l) w = on_logger (setConsoleThreshold l) w"
| "exec (SetFileThreshold l) w = on_logger (setFileThreshold l) w"
| "exec (SetFlushPolicy p) w = on_logger (setFlushPolicy p) w"
| "exec (SetUseColors b) w = on_logger (\<lambda>s. s\<lparr>useColors := b\<rparr>) w"
| "exec (SetIncludeDate b) w = on_logger (\<lambda>s. s\<lparr>includeDate := b\<rparr>) w"
| "exec (EnableFileLogging name e) w = enableFileLogging name e w"
| "exec DisableFileLogging w = disableFileLogging w"

fun run :: "call list \<Rightarrow> sys \<Rightarrow> sys" where
  "run [] w = w"
| "run (c # cs) w = run cs (exec c w)"

subsection \<open>Vocabulary of the properties\<close>

text \<open>
  The array is intact, the count leaves room for a terminator, and the byte at the count
  is the terminator that the last \<^verbatim>\<open>snprintf\<close> or \<^verbatim>\<open>reset\<close> stored.
\<close>

definition wf_buffer :: "LogBuffer \<Rightarrow> bool" where
  "wf_buffer s =
     (length (buffer s) = BUFFER_SIZE \<and> size_used s < BUFFER_SIZE \<and>
      buffer s ! size_used s = NUL)"

text \<open>
  The text an append stores when nothing stops it: the format's output, trailing space
  included. A null pointer, an empty \<^verbatim>\<open>std::string\<close> and an empty
  \<^verbatim>\<open>std::string_view\<close> store nothing.
\<close>

fun rendered :: "logval \<Rightarrow> string" where
  "rendered (VChar c) = fmt_c c"
| "rendered (VText None) = []"
| "rendered (VText (Some t)) = fmt_s t"
| "rendered (VString t) = (if t = [] then [] else fmt_s t)"
| "rendered (VStringView t) = (if t = [] then [] else fmt_prec_s (int_of_size_t (length t)) t)"
| "rendered (VBool b) = fmt_s (if b then ''true'' else ''false'')"
| "rendered (VIntegral k v) = integral_format k v"
| "rendered (VHex k v) = hex_format k v"
| "rendered (VFloating d) = fmt_f8 d"
| "rendered (VPointer a) = fmt_p a"

text \<open>
  The headroom each overload asks for before it formats: the constant \<open>k\<close> of its
  guard \<^verbatim>\<open>size >= BUFFER_SIZE - k\<close>; for a view, its size and the separator.
\<close>

fun reserve :: "logval \<Rightarrow> nat" where
  "reserve (VChar c) = 2"
| "reserve (VText t) = 1"
| "reserve (VString t) = (if t = [] then 0 else 1)"
| "reserve (VStringView t) = (if t = [] then 0 else length t + 1)"
| "reserve (VBool b) = 10"
| "reserve (VIntegral k v) = 25"
| "reserve (VHex k v) = 25"
| "reserve (VFloating d) = 30"
| "reserve (VPointer a) = 20"

text \<open>An append at count \<open>pos\<close> passes its guard and its text fits below the
  capacity; a sequence, when each append does so at the count the earlier ones leave.\<close>

definition admits :: "nat \<Rightarrow> logval \<Rightarrow> bool" where
  "admits pos v = (pos + reserve v < BUFFER_SIZE \<and> pos + length (rendered v) < BUFFER_SIZE)"


text \<open>
  Surroundings to run examples in: the clock stands \<open>offset\<close> nanoseconds after
  2026-10-30 13:05:07 UTC (1793365507 seconds after the epoch), the time zone is UTC, and
  \<open>localtime\<close> answers for that second, in which every example falls; any file can
  be opened.
\<close>

definition tm0 :: tm where
  "tm0 = \<lparr> tm_sec = 7, tm_min = 5, tm_hour = 13, tm_mday = 30, tm_mon = 9, tm_year = 126 \<rparr>"

definition env_at :: "nat \<Rightarrow> env" where
  "env_at offset =
     \<lparr> now = 1793365507000000000 + offset, localtime = (\<lambda>_. tm0), open_ok = (\<lambda>_. True) \<rparr>"


text \<open>The flag and the stream agree: file logging is enabled exactly when the stream is
  open.\<close>

definition sink_consistent :: "sys \<Rightarrow> bool" where
  "sink_consistent w = (fileLoggingEnabled (logger w) = is_open (logFile (logger w)))"

text \<open>An object configured as \<^verbatim>\<open>LOG_INIT\<close> does, holding the record that
  \<^verbatim>\<open>LOG_PRINT(severity, LOG_STRING("hello"); LOG_INT(42))\<close> assembles before it
  prints.\<close>

definition example_sys :: "LogLevel \<Rightarrow> LogLevel \<Rightarrow> bool \<Rightarrow> LogLevel \<Rightarrow> sys" where
  "example_sys consoleLevel fileLevel enableFile severity =
     run ([SetConsoleThreshold consoleLevel, SetFileThreshold fileLevel,
           SetUseColors True, SetIncludeDate True] @
          (if enableFile then [EnableFileLogging [] (env_at 0)] else [DisableFileLogging]) @
          [SetLevel severity, Append (VText (Some ''hello'')), Append (VIntegral Is_signed 42)])
       sys_init"

text \<open>A record filled to the last free byte without truncation: a text of 4094
  characters and its separator.\<close>

definition full_record :: LogBuffer where
  "full_record = append_text (Some (replicate 4094 (CHR ''a''))) LogBuffer_init"


text \<open>The overloads whose text has a bounded width: a character, a boolean, an integral
  value in decimal or hexadecimal, a pointer.\<close>

fun fixed_width :: "logval \<Rightarrow> bool" where
  "fixed_width (VChar c) = True"
| "fixed_width (VBool b) = True"
| "fixed_width (VIntegral k v) = True"
| "fixed_width (VHex k v) = True"
| "fixed_width (VPointer a) = True"
| "fixed_width v = False"

text \<open>A record 30 bytes short of full: a \<^verbatim>\<open>std::string\<close> of 4064 characters and its
  separator.\<close>

definition nearly_full :: LogBuffer where
  "nearly_full = append_string (replicate 4064 (CHR ''a'')) LogBuffer_init"

section \<open>The buffer under the appends\<close>

subsection \<open>Sizes without wrap-around\<close>

lemma size_t_sub_eq:
  assumes "b \<le> a" "a < SIZE_RANGE"
  shows "size_t_sub a b = a - b"
proof -
  have b: "b mod SIZE_RANGE = b" using assms by simp
  have "a + SIZE_RANGE - b = (a - b) + SIZE_RANGE" using assms by simp
  then have "(a + SIZE_RANGE - b) mod SIZE_RANGE = ((a - b) + SIZE_RANGE) mod SIZE_RANGE"
    by (rule arg_cong)
  also have "\<dots> = (a - b) mod SIZE_RANGE" by (rule mod_add_self2)
  also have "\<dots> = a - b" by (rule mod_less) (use assms in linarith)
  finally show ?thesis unfolding size_t_sub_def b .
qed

lemma size_t_add_eq: "a + b < SIZE_RANGE \<Longrightarrow> size_t_add a b = a + b"
  by (simp add: size_t_add_def)

lemma size_t_of_int_eq: "n < SIZE_RANGE \<Longrightarrow> size_t_of_int (int n) = n"
  by (simp add: size_t_of_int_def flip: of_nat_mod)

lemma room_eq:
  "n < BUFFER_SIZE \<Longrightarrow> size_t_sub BUFFER_SIZE n = BUFFER_SIZE - n"
  by (rule size_t_sub_eq) (simp_all add: BUFFER_SIZE_def SIZE_RANGE_def)

lemma available_eq:
  assumes "n < BUFFER_SIZE"
  shows "size_t_sub (size_t_sub BUFFER_SIZE n) 1 = BUFFER_SIZE - 1 - n"
proof -
  have "size_t_sub (BUFFER_SIZE - n) 1 = BUFFER_SIZE - n - 1"
    using assms by (intro size_t_sub_eq) (simp_all add: BUFFER_SIZE_def SIZE_RANGE_def)
  then show ?thesis using assms by (simp add: room_eq)
qed

lemma safeAppend_eq:
  assumes "size_used s < BUFFER_SIZE" "n \<le> INT_MAX"
  shows "fst (safeAppend (int n) s) =
     s\<lparr>truncated := (truncated s \<or> n > BUFFER_SIZE - 1 - size_used s),
       size_used := size_used s + min n (BUFFER_SIZE - 1 - size_used s)\<rparr>"
proof -
  have n: "size_t_of_int (int n) = n"
    using assms(2) by (intro size_t_of_int_eq) (simp add: INT_MAX_def SIZE_RANGE_def)
  have av: "size_t_sub (size_t_sub BUFFER_SIZE (size_used s)) 1 = BUFFER_SIZE - 1 - size_used s"
    using assms(1) by (rule available_eq)
  have ad: "size_t_add (size_used s) k = size_used s + k" if "k \<le> BUFFER_SIZE - 1 - size_used s" for k
    using assms(1) that by (intro size_t_add_eq) (simp add: BUFFER_SIZE_def SIZE_RANGE_def)
  show ?thesis
  proof (cases "n = 0")
    case True
    then show ?thesis by (simp add: safeAppend_def)
  next
    case False
    then have pos: "int n > 0" by simp
    show ?thesis
    proof (cases "n > BUFFER_SIZE - 1 - size_used s")
      case True
      then show ?thesis
        unfolding safeAppend_def Let_def n av using pos
        by (simp add: ad min_def)
    next
      case False
      then have "n \<le> BUFFER_SIZE - 1 - size_used s" by simp
      then show ?thesis
        unfolding safeAppend_def Let_def n av using pos False
        by (simp add: ad min_def)
    qed
  qed
qed

lemma format_into_eq:
  assumes "size_used s < BUFFER_SIZE" "length r \<le> INT_MAX"
  shows "format_into r s =
     s\<lparr>buffer := write_at (buffer s) (size_used s)
                   (take (BUFFER_SIZE - 1 - size_used s) r @ [NUL]),
       truncated := (truncated s \<or> length r > BUFFER_SIZE - 1 - size_used s),
       size_used := size_used s + min (length r) (BUFFER_SIZE - 1 - size_used s)\<rparr>"
proof -
  have "BUFFER_SIZE - size_used s \<noteq> 0" using assms(1) by simp
  then show ?thesis
    using assms safeAppend_eq [of "s\<lparr>buffer := write_at (buffer s) (size_used s)
                   (take (BUFFER_SIZE - 1 - size_used s) r @ [NUL])\<rparr>" "length r"]
    by (simp add: format_into_def snprintf_def room_eq)
qed

lemma format_into_overflow:
  assumes "length r > INT_MAX"
  shows "size_used (format_into r s) = size_used s"
    and "truncated (format_into r s) = truncated s"
  using assms by (simp_all add: format_into_def snprintf_def safeAppend_def)

lemma format_into_size:
  assumes "size_used s < BUFFER_SIZE"
  shows "size_used (format_into r s) < BUFFER_SIZE"
proof (cases "length r \<le> INT_MAX")
  case True
  have "size_used s + min (length r) (BUFFER_SIZE - 1 - size_used s) < BUFFER_SIZE"
    using assms by arith
  then show ?thesis by (simp add: format_into_eq [OF assms True])
next
  case False
  then show ?thesis using assms by (simp add: format_into_overflow)
qed

lemma write_at_length:
  "off + length bytes \<le> length buf \<Longrightarrow> length (write_at buf off bytes) = length buf"
  by (simp add: write_at_def)

lemma write_at_take:
  "off \<le> length buf \<Longrightarrow> take (off + length xs) (write_at buf off (xs @ ys)) = take off buf @ xs"
  by (simp add: write_at_def)

lemma write_at_nth:
  "off \<le> length buf \<Longrightarrow> write_at buf off (xs @ [c]) ! (off + length xs) = c"
  by (simp add: write_at_def nth_append)

lemma format_into_record:
  assumes "wf_buffer s" "length r \<le> INT_MAX"
  shows "record_bytes (format_into r s) = record_bytes s @ take (BUFFER_SIZE - 1 - size_used s) r"
    and "wf_buffer (format_into r s)"
    and "truncated (format_into r s) = (truncated s \<or> length r > BUFFER_SIZE - 1 - size_used s)"
proof -
  let ?k = "BUFFER_SIZE - 1 - size_used s"
  have sz: "size_used s < BUFFER_SIZE" and len: "length (buffer s) = BUFFER_SIZE"
    using assms(1) by (simp_all add: wf_buffer_def)
  note eq = format_into_eq [OF sz assms(2)]
  have m: "min (length r) ?k = length (take ?k r)" by (simp add: min.commute)
  have le: "size_used s \<le> length (buffer s)" using sz len by simp
  show "record_bytes (format_into r s) = record_bytes s @ take ?k r"
    unfolding eq record_bytes_def m using write_at_take [OF le, of "take ?k r" "[NUL]"]
    by simp
  show "truncated (format_into r s) = (truncated s \<or> length r > ?k)"
    unfolding eq by simp
  have "size_used s + length (take ?k r @ [NUL]) \<le> length (buffer s)"
    using sz len by simp
  then have l2: "length (write_at (buffer s) (size_used s) (take ?k r @ [NUL])) = BUFFER_SIZE"
    using len by (simp add: write_at_length del: length_append length_take)
  have "size_used s + length (take ?k r) < BUFFER_SIZE" using sz by simp
  then show "wf_buffer (format_into r s)"
    unfolding eq wf_buffer_def m using l2 write_at_nth [OF le, of "take ?k r" NUL]
    by (simp del: length_take)
qed

lemma wf_size: "wf_buffer s \<Longrightarrow> length (record_bytes s) = size_used s"
  by (simp add: wf_buffer_def record_bytes_def)

lemma format_into_fits:
  assumes "wf_buffer s" "size_used s + length r < BUFFER_SIZE"
  shows "record_bytes (format_into r s) = record_bytes s @ r"
    and "truncated (format_into r s) = truncated s"
    and "wf_buffer (format_into r s)"
    and "size_used (format_into r s) = size_used s + length r"
proof -
  have i: "length r \<le> INT_MAX" using assms(2) by (simp add: BUFFER_SIZE_def INT_MAX_def)
  have k: "length r \<le> BUFFER_SIZE - 1 - size_used s" using assms(2) by arith
  note f = format_into_record [OF assms(1) i]
  show 1: "record_bytes (format_into r s) = record_bytes s @ r" using f(1) k by simp
  show "truncated (format_into r s) = truncated s" using f(3) k by simp
  show 3: "wf_buffer (format_into r s)" by (rule f(2))
  show "size_used (format_into r s) = size_used s + length r"
    using wf_size [OF 3] wf_size [OF assms(1)] 1 by simp
qed

lemma wf_truncated [simp]: "wf_buffer (s\<lparr>truncated := b\<rparr>) = wf_buffer s"
  by (simp add: wf_buffer_def)

lemma record_bytes_truncated [simp]: "record_bytes (s\<lparr>truncated := b\<rparr>) = record_bytes s"
  by (simp add: record_bytes_def)

lemma length_c_str: "length (c_str t) \<le> length t"
  by (simp add: c_str_def length_takeWhile_le)

lemma int_of_size_t_small: "n < 2 ^ 31 \<Longrightarrow> int_of_size_t n = int n"
  by (simp add: int_of_size_t_def)

lemma fmt_prec_s_view: "length t < 2 ^ 31 \<Longrightarrow> fmt_prec_s (int_of_size_t (length t)) t = fmt_s t"
  using length_c_str [of t] by (simp add: int_of_size_t_small fmt_prec_s_def fmt_s_def)

lemma append_value_admitted:
  assumes "wf_buffer s" "admits (size_used s) v"
  shows "record_bytes (append_value v s) = record_bytes s @ rendered v \<and>
         truncated (append_value v s) = truncated s \<and>
         wf_buffer (append_value v s) \<and>
         size_used (append_value v s) = size_used s + length (rendered v)"
proof -
  have sz: "size_used s < BUFFER_SIZE" using assms(1) by (simp add: wf_buffer_def)
  have fit: "size_used s + length (rendered v) < BUFFER_SIZE"
    and res: "size_used s + reserve v < BUFFER_SIZE"
    using assms(2) by (simp_all add: admits_def)
  note F = format_into_fits [OF assms(1)]
  show ?thesis
  proof (cases v)
    case (VChar c)
    have "\<not> size_used s \<ge> BUFFER_SIZE - 2" using res VChar by simp
    then show ?thesis using F [of "fmt_c c"] fit VChar by (simp add: append_char_def)
  next
    case (VText t)
    have g: "\<not> size_used s \<ge> BUFFER_SIZE - 1" using res VText by simp
    show ?thesis
    proof (cases t)
      case None
      then show ?thesis using g VText assms(1) by (simp add: append_text_def)
    next
      case (Some x)
      then show ?thesis using g VText F [of "fmt_s x"] fit by (simp add: append_text_def)
    qed
  next
    case (VString t)
    show ?thesis
    proof (cases "t = []")
      case True
      then show ?thesis using VString assms(1) by (simp add: append_string_def)
    next
      case False
      then have g: "\<not> size_used s \<ge> BUFFER_SIZE - 1" using res VString by simp
      then show ?thesis using False VString F [of "fmt_s t"] fit
        by (simp add: append_string_def append_text_def)
    qed
  next
    case (VStringView t)
    show ?thesis
    proof (cases "t = []")
      case True
      then show ?thesis using VStringView assms(1) by (simp add: append_string_view_def)
    next
      case False
      then have "size_used s + (length t + 1) < BUFFER_SIZE" using res VStringView by simp
      then have "length t < BUFFER_SIZE - 1 - size_used s" by arith
      then have g: "length t < size_t_sub (size_t_sub BUFFER_SIZE (size_used s)) 1"
        by (simp only: available_eq [OF sz])
      show ?thesis using False VStringView g fit
          F [of "fmt_prec_s (int_of_size_t (length t)) t"]
        by (simp add: append_string_view_def)
    qed
  next
    case (VBool b)
    have "\<not> size_used s \<ge> BUFFER_SIZE - 10" using res VBool by simp
    then show ?thesis using F [of "rendered v"] fit VBool
      by (simp add: append_bool_def)
  next
    case (VIntegral k w)
    have "\<not> size_used s \<ge> BUFFER_SIZE - 25" using res VIntegral by simp
    then show ?thesis using F [of "rendered v"] fit VIntegral
      by (simp add: append_integral_def)
  next
    case (VHex k w)
    have "\<not> size_used s \<ge> BUFFER_SIZE - 25" using res VHex by simp
    then show ?thesis using F [of "rendered v"] fit VHex
      by (simp add: appendHex_def)
  next
    case (VFloating d)
    have "\<not> size_used s \<ge> BUFFER_SIZE - 30" using res VFloating by simp
    then show ?thesis using F [of "rendered v"] fit VFloating
      by (simp add: append_floating_def)
  next
    case (VPointer a)
    have "\<not> size_used s \<ge> BUFFER_SIZE - 20" using res VPointer by simp
    then show ?thesis using F [of "rendered v"] fit VPointer
      by (simp add: append_pointer_def)
  qed
qed


section \<open>The size invariant\<close>

lemma append_value_size:
  assumes "size_used s < BUFFER_SIZE"
  shows "size_used (append_value v s) < BUFFER_SIZE"
  using assms format_into_size [OF assms]
  by (cases v)
     (simp_all add: append_char_def append_text_def append_string_def append_string_view_def
        append_bool_def append_integral_def appendHex_def append_floating_def
        append_pointer_def)

lemma size_used_reset [simp]: "size_used (reset s) = 0"
  by (simp add: reset_def)

lemma printUnsafe_logger_reset:
  "\<exists>s'. logger (printUnsafe e w) = reset s'"
  by (auto simp: printUnsafe_def Let_def split: prod.splits)

lemma print_size: "size_used (logger (print e w)) = 0"
  using printUnsafe_logger_reset [of e w] by (auto simp: print_def)

lemma BUFFER_SIZE_pos: "0 < BUFFER_SIZE"
  by (simp add: BUFFER_SIZE_def)

lemma exec_size:
  assumes "size_used (logger w) < BUFFER_SIZE"
  shows "size_used (logger (exec c w)) < BUFFER_SIZE"
proof (cases c)
  case (Append v)
  then show ?thesis using append_value_size [OF assms] by (simp add: on_logger_def)
next
  case (Print e)
  then show ?thesis by (simp add: print_size BUFFER_SIZE_pos)
next
  case Flush
  then show ?thesis using assms by (simp add: flush_def split: prod.splits)
next
  case (EnableFileLogging name e)
  then show ?thesis using assms by (simp add: enableFileLogging_def Let_def split: prod.splits)
next
  case DisableFileLogging
  then show ?thesis using assms by (simp add: disableFileLogging_def Let_def split: prod.splits)
qed (use assms in \<open>simp_all add: on_logger_def BUFFER_SIZE_pos setLevel_def
      setConsoleThreshold_def setFileThreshold_def setFlushPolicy_def\<close>)

lemma run_size:
  "size_used (logger w) < BUFFER_SIZE \<Longrightarrow> size_used (logger (run cs w)) < BUFFER_SIZE"
  by (induction cs arbitrary: w) (simp_all add: exec_size)

text \<open>
  Claim C6. The count stays below the capacity, so at most 4095: this holds for a freshly
  constructed object, every call keeps it (each \<^verbatim>\<open>append\<close> overload,
  \<^verbatim>\<open>appendHex\<close>, \<^verbatim>\<open>print\<close>, \<^verbatim>\<open>reset\<close> and the sink and setter calls), and so
  it holds after every sequence of calls.
\<close>

theorem size_invariant:
  "size_used (logger sys_init) < BUFFER_SIZE \<and>
   (size_used (logger w) < BUFFER_SIZE \<longrightarrow> size_used (logger (exec c w)) < BUFFER_SIZE) \<and>
   size_used (logger (run cs sys_init)) < BUFFER_SIZE \<and>
   size_used (logger (run cs sys_init)) \<le> 4095"
proof -
  have i: "size_used (logger sys_init) < BUFFER_SIZE"
    by (simp add: sys_init_def LogBuffer_init_def BUFFER_SIZE_def)
  from run_size [OF i, of cs] have "size_used (logger (run cs sys_init)) \<le> 4095"
    by (simp add: BUFFER_SIZE_def)
  with i run_size [OF i, of cs] exec_size [of w c] show ?thesis by blast
qed

theorem size_invariant_witness:
  "size_used (logger sys_init) < BUFFER_SIZE \<and>
   size_used (logger (exec (Append (VText (Some (replicate 5000 (CHR ''a''))))) sys_init))
     < BUFFER_SIZE"
proof -
  have h: "size_used (logger sys_init) < BUFFER_SIZE"
    by (simp add: sys_init_def LogBuffer_init_def BUFFER_SIZE_def)
  from size_invariant [of sys_init "Append (VText (Some (replicate 5000 (CHR ''a''))))" "[]"] h
  show ?thesis by blast
qed

section \<open>Sequences of appends\<close>

lemma wf_init: "wf_buffer LogBuffer_init"
  by (simp add: wf_buffer_def LogBuffer_init_def BUFFER_SIZE_def)

lemma init_fields [simp]:
  "size_used LogBuffer_init = 0" "truncated LogBuffer_init = False"
  "record_bytes LogBuffer_init = []"
  by (simp_all add: LogBuffer_init_def record_bytes_def)

lemma c_str_id: "NUL \<notin> set t \<Longrightarrow> c_str t = t"
  by (auto simp: c_str_def)

lemma record_text_eq:
  assumes "wf_buffer s" "NUL \<notin> set (record_bytes s)"
  shows "record_text s = record_bytes s"
proof -
  let ?n = "size_used s"
  have n: "?n < length (buffer s)" and z: "buffer s ! ?n = NUL"
    using assms(1) by (simp_all add: wf_buffer_def)
  have "buffer s = take ?n (buffer s) @ NUL # drop (Suc ?n) (buffer s)"
    using id_take_nth_drop [OF n] z by simp
  then have "c_str (buffer s) = takeWhile (\<lambda>c. c \<noteq> NUL) (take ?n (buffer s) @ NUL # drop (Suc ?n) (buffer s))"
    unfolding c_str_def by simp
  also have "\<dots> = takeWhile (\<lambda>c. c \<noteq> NUL) (take ?n (buffer s))"
    by (rule takeWhile_tail) simp
  also have "\<dots> = take ?n (buffer s)"
    using assms(2) by (auto simp: record_bytes_def)
  finally show ?thesis by (simp add: record_text_def record_bytes_def)
qed
















section \<open>Emission\<close>

lemma level_lt_ge: "level_lt a b = (\<not> level_ge a b)"
  by (auto simp: level_lt_def level_ge_def)

lemma fullMessage_cache [simp]:
  "fullMessage ts (s\<lparr>cachedTimestamp := c, lastTimestampUpdate := l\<rparr>) = fullMessage ts s"
  by (simp add: fullMessage_def record_text_def)

lemma console_text_cache [simp]:
  "console_text (s\<lparr>cachedTimestamp := c, lastTimestampUpdate := l\<rparr>) msg = console_text s msg"
  by (simp add: console_text_def)

lemma print_stdout:
  "stdout (print e w) =
     stdout w @
     (if level_ge (currentLevel (logger w)) (consoleThreshold (logger w))
      then console_text (logger w) (fullMessage (fst (getTimestamp e (logger w))) (logger w))
      else [])"
  by (simp add: print_def printUnsafe_def Let_def level_lt_ge getTimestamp_def
      split: prod.splits)


lemma format_into_fields [simp]:
  "logFile (format_into r s) = logFile s"
  "fileLoggingEnabled (format_into r s) = fileLoggingEnabled s"
  "currentLevel (format_into r s) = currentLevel s"
  "consoleThreshold (format_into r s) = consoleThreshold s"
  "fileThreshold (format_into r s) = fileThreshold s"
  "useColors (format_into r s) = useColors s"
  "includeDate (format_into r s) = includeDate s"
  "flushPolicy (format_into r s) = flushPolicy s"
  "cachedTimestamp (format_into r s) = cachedTimestamp s"
  "lastTimestampUpdate (format_into r s) = lastTimestampUpdate s"
  by (simp_all add: format_into_def snprintf_def safeAppend_def Let_def)

lemma append_value_fields [simp]:
  "logFile (append_value v s) = logFile s"
  "fileLoggingEnabled (append_value v s) = fileLoggingEnabled s"
  "currentLevel (append_value v s) = currentLevel s"
  "consoleThreshold (append_value v s) = consoleThreshold s"
  "fileThreshold (append_value v s) = fileThreshold s"
  "useColors (append_value v s) = useColors s"
  "includeDate (append_value v s) = includeDate s"
  "flushPolicy (append_value v s) = flushPolicy s"
  "cachedTimestamp (append_value v s) = cachedTimestamp s"
  "lastTimestampUpdate (append_value v s) = lastTimestampUpdate s"
  by (cases v;
      simp add: append_char_def append_text_def append_string_def
          append_string_view_def append_bool_def append_integral_def appendHex_def
          append_floating_def append_pointer_def)+

lemma exec_sink_consistent:
  assumes "sink_consistent w"
  shows "sink_consistent (exec c w)"
proof (cases c)
  case (Append v)
  then show ?thesis using assms by (simp add: sink_consistent_def on_logger_def)
next
  case (Print e)
  then show ?thesis using assms
    by (simp add: sink_consistent_def print_def printUnsafe_def Let_def reset_def
        getTimestamp_def ofstream_insert_def ofstream_flush_def split: prod.splits)
next
  case Flush
  then show ?thesis using assms
    by (simp add: sink_consistent_def flush_def ofstream_flush_def split: prod.splits)
next
  case (EnableFileLogging name e)
  then show ?thesis using assms
    by (simp add: sink_consistent_def enableFileLogging_def Let_def split: prod.splits)
next
  case DisableFileLogging
  then show ?thesis
    by (simp add: sink_consistent_def disableFileLogging_def Let_def ofstream_flush_def
        ofstream_close_def split: prod.splits)
qed (use assms in \<open>simp_all add: sink_consistent_def on_logger_def reset_def setLevel_def
      setConsoleThreshold_def setFileThreshold_def setFlushPolicy_def\<close>)

lemma run_sink_consistent:
  "sink_consistent w \<Longrightarrow> sink_consistent (run cs w)"
  by (induction cs arbitrary: w) (simp_all add: exec_sink_consistent)

lemma init_sink_consistent: "sink_consistent sys_init"
  by (simp add: sink_consistent_def sys_init_def LogBuffer_init_def)



lemma example_sys_fields:
  "currentLevel (logger (example_sys c f b l)) = l"
  "consoleThreshold (logger (example_sys c f b l)) = c"
  "fileThreshold (logger (example_sys c f b l)) = f"
  "fileLoggingEnabled (logger (example_sys c f b l)) = b"
  "is_open (logFile (logger (example_sys c f b l))) = b"
  "useColors (logger (example_sys c f b l)) = True"
  by (simp_all add: example_sys_def on_logger_def setLevel_def setConsoleThreshold_def
      setFileThreshold_def enableFileLogging_def disableFileLogging_def ofstream_open_def
      env_at_def sys_init_def LogBuffer_init_def Let_def del: append_value.simps)



lemma print_logger_fields:
  "size_used (logger (print e w)) = 0"
  "currentLevel (logger (print e w)) = LOG_INFO"
  "truncated (logger (print e w)) = False"
  "buffer (logger (print e w)) = (buffer (logger w))[0 := NUL]"
  by (simp_all add: print_def printUnsafe_def Let_def reset_def getTimestamp_def
      split: prod.splits)

text \<open>
  Claim C5. Every \<^verbatim>\<open>print\<close> leaves the count at 0, the severity at \<open>INFO\<close>,
  \<open>truncated\<close> false and a terminator in the first byte of the array, whatever the
  sinks did. When the severity is below the console threshold and the file sink is
  disabled or the severity is below the file threshold, \<^verbatim>\<open>print\<close> does nothing but
  that reset: standard output, the disk, the stream and the timestamp cache are as
  before.
\<close>

theorem print_resets:
  "size_used (logger (print e w)) = 0 \<and>
   currentLevel (logger (print e w)) = LOG_INFO \<and>
   \<not> truncated (logger (print e w)) \<and>
   buffer (logger (print e w)) = (buffer (logger w))[0 := NUL] \<and>
   (level_lt (currentLevel (logger w)) (consoleThreshold (logger w)) \<and>
    (\<not> fileLoggingEnabled (logger w) \<or>
     level_lt (currentLevel (logger w)) (fileThreshold (logger w)))
    \<longrightarrow> print e w = w\<lparr>logger := reset (logger w)\<rparr> \<and>
        stdout (print e w) = stdout w \<and> disk (print e w) = disk w \<and>
        logFile (logger (print e w)) = logFile (logger w) \<and>
        cachedTimestamp (logger (print e w)) = cachedTimestamp (logger w) \<and>
        lastTimestampUpdate (logger (print e w)) = lastTimestampUpdate (logger w))"
proof -
  have "print e w = w\<lparr>logger := reset (logger w)\<rparr>"
    if "level_lt (currentLevel (logger w)) (consoleThreshold (logger w))"
       "\<not> fileLoggingEnabled (logger w) \<or>
        level_lt (currentLevel (logger w)) (fileThreshold (logger w))"
    using that by (simp add: print_def printUnsafe_def Let_def)
  then show ?thesis
    using print_logger_fields [of e w] by (auto simp: reset_def)
qed

theorem print_resets_witness:
  "level_lt (currentLevel (logger (example_sys LOG_WARNING LOG_VERBOSE False LOG_INFO)))
     (consoleThreshold (logger (example_sys LOG_WARNING LOG_VERBOSE False LOG_INFO))) \<and>
   \<not> fileLoggingEnabled (logger (example_sys LOG_WARNING LOG_VERBOSE False LOG_INFO)) \<and>
   print (env_at 5) (example_sys LOG_WARNING LOG_VERBOSE False LOG_INFO) =
     (example_sys LOG_WARNING LOG_VERBOSE False LOG_INFO)
       \<lparr>logger := reset (logger (example_sys LOG_WARNING LOG_VERBOSE False LOG_INFO))\<rparr> \<and>
   size_used (logger (print (env_at 5) (example_sys LOG_WARNING LOG_VERBOSE False LOG_INFO))) = 0"
proof -
  have h: "level_lt (currentLevel (logger (example_sys LOG_WARNING LOG_VERBOSE False LOG_INFO)))
     (consoleThreshold (logger (example_sys LOG_WARNING LOG_VERBOSE False LOG_INFO)))"
    "\<not> fileLoggingEnabled (logger (example_sys LOG_WARNING LOG_VERBOSE False LOG_INFO))"
    by (simp_all add: example_sys_fields level_lt_def)
  from print_resets [of "env_at 5" "example_sys LOG_WARNING LOG_VERBOSE False LOG_INFO"] h
  show ?thesis by blast
qed

section \<open>The file sink's life cycle\<close>

text \<open>
  Claim C9. \<^verbatim>\<open>flush\<close> with no file open changes nothing, and
  \<^verbatim>\<open>disableFileLogging\<close> on a disabled sink with no file open changes nothing: the
  whole state, standard output and disk included, is as before, and neither call has a
  failing path. \<^verbatim>\<open>disableFileLogging\<close> is idempotent in every state. In every state
  the calls can reach, a disabled sink has no file open, so there the flag alone gives
  both.
\<close>

theorem sink_noops:
  "(\<not> is_open (logFile (logger w)) \<longrightarrow> flush w = w) \<and>
   (\<not> fileLoggingEnabled (logger w) \<and> \<not> is_open (logFile (logger w))
      \<longrightarrow> disableFileLogging w = w) \<and>
   disableFileLogging (disableFileLogging w) = disableFileLogging w \<and>
   (\<not> fileLoggingEnabled (logger (run cs sys_init))
      \<longrightarrow> disableFileLogging (run cs sys_init) = run cs sys_init \<and>
          flush (run cs sys_init) = run cs sys_init)"
proof -
  have f: "flush v = v" if "\<not> is_open (logFile (logger v))" for v
    using that by (simp add: flush_def)
  have d: "disableFileLogging v = v"
    if "\<not> fileLoggingEnabled (logger v)" "\<not> is_open (logFile (logger v))" for v
  proof -
    have "(logger v)\<lparr>fileLoggingEnabled := False\<rparr> = logger v"
      using that(1) by (cases "logger v") simp
    then show ?thesis using that(2) by (simp add: disableFileLogging_def)
  qed
  have c: "\<not> is_open (logFile (logger (disableFileLogging w)))"
    "\<not> fileLoggingEnabled (logger (disableFileLogging w))"
    by (simp_all add: disableFileLogging_def ofstream_flush_def ofstream_close_def
        split: prod.splits)
  have r: "\<not> is_open (logFile (logger (run cs sys_init)))"
    if "\<not> fileLoggingEnabled (logger (run cs sys_init))"
    using that run_sink_consistent [OF init_sink_consistent, of cs]
    by (simp add: sink_consistent_def)
  show ?thesis using f [of w] d [of w] d [OF c(2) c(1)] r d [of "run cs sys_init"]
      f [of "run cs sys_init"] by blast
qed

theorem sink_noops_witness:
  "\<not> fileLoggingEnabled (logger (example_sys LOG_WARNING LOG_VERBOSE False LOG_INFO)) \<and>
   \<not> is_open (logFile (logger (example_sys LOG_WARNING LOG_VERBOSE False LOG_INFO))) \<and>
   disableFileLogging (example_sys LOG_WARNING LOG_VERBOSE False LOG_INFO)
     = example_sys LOG_WARNING LOG_VERBOSE False LOG_INFO \<and>
   flush (example_sys LOG_WARNING LOG_VERBOSE False LOG_INFO)
     = example_sys LOG_WARNING LOG_VERBOSE False LOG_INFO"
proof -
  have h: "\<not> fileLoggingEnabled (logger (example_sys LOG_WARNING LOG_VERBOSE False LOG_INFO))"
    "\<not> is_open (logFile (logger (example_sys LOG_WARNING LOG_VERBOSE False LOG_INFO)))"
    by (simp_all add: example_sys_fields)
  from sink_noops [of "example_sys LOG_WARNING LOG_VERBOSE False LOG_INFO" "[]"] h
  show ?thesis by blast
qed

text \<open>
  Claim C10. \<^verbatim>\<open>enableFileLogging\<close> on an enabled sink returns the state as it was,
  for every file name and whatever the clock and the file system say: no file is opened,
  and the stream, the flag and every other field are unchanged.
\<close>

theorem enable_when_enabled:
  "fileLoggingEnabled (logger w) \<Longrightarrow> enableFileLogging filename e w = w"
  by (simp add: enableFileLogging_def)

theorem enable_when_enabled_witness:
  "fileLoggingEnabled (logger (example_sys LOG_VERBOSE LOG_VERBOSE True LOG_INFO)) \<and>
   enableFileLogging ''other.log'' (env_at 9) (example_sys LOG_VERBOSE LOG_VERBOSE True LOG_INFO)
     = example_sys LOG_VERBOSE LOG_VERBOSE True LOG_INFO"
proof -
  have h: "fileLoggingEnabled (logger (example_sys LOG_VERBOSE LOG_VERBOSE True LOG_INFO))"
    by (simp add: example_sys_fields)
  from enable_when_enabled [OF h, of "''other.log''" "env_at 9"] h show ?thesis by blast
qed

section \<open>Timestamps\<close>

lemma dec_digits: "set (dec n) \<subseteq> set ''0123456789''"
proof (induction n rule: dec.induct)
  case (1 n)
  have d: "digit_char k \<in> set ''0123456789''" if "k < 10" for k
  proof -
    from that have "k \<in> {0, 1, 2, 3, 4, 5, 6, 7, 8, 9}" by auto
    then show ?thesis by (auto simp: digit_char_def)
  qed
  show ?case
  proof (cases "n < 10")
    case True
    then show ?thesis using d [of n] by (subst dec.simps) simp
  next
    case False
    then show ?thesis using 1 d [of "n mod 10"] by (subst dec.simps) simp
  qed
qed

lemma dec_length: "0 < k \<Longrightarrow> n < 10 ^ k \<Longrightarrow> length (dec n) \<le> k"
proof (induction k arbitrary: n)
  case 0
  then show ?case by simp
next
  case (Suc k)
  show ?case
  proof (cases "n < 10")
    case True
    then show ?thesis by (subst dec.simps) simp
  next
    case False
    then have k: "0 < k" using Suc.prems(2) by (cases k) simp_all
    have "n div 10 < 10 ^ k" using Suc.prems(2) by (simp add: less_mult_imp_div_less mult.commute)
    from Suc.IH [OF k this] False show ?thesis by (subst dec.simps) simp
  qed
qed

lemma dec_nonempty: "dec n \<noteq> []"
  by (subst dec.simps) simp

lemma zero_pad_length: "length s \<le> w \<Longrightarrow> length (zero_pad w s) = w"
  by (simp add: zero_pad_def)

lemma zero_pad_digits:
  "set s \<subseteq> set ''0123456789'' \<Longrightarrow> set (zero_pad w s) \<subseteq> set ''0123456789''"
  by (auto simp: zero_pad_def)

lemma elapsed_ms_lt_1: "(elapsed_ms t prev < 1) = (int t - int prev < 1000000)"
  by (auto simp: elapsed_ms_def Let_def)

lemma format_timestamp_nonempty: "format_timestamp e d \<noteq> []"
  by (simp add: format_timestamp_def Let_def)

lemma getTimestamp_hit:
  "cachedTimestamp s \<noteq> [] \<Longrightarrow> int (now e) - int (lastTimestampUpdate s) < 1000000 \<Longrightarrow>
   getTimestamp e s = (cachedTimestamp s, s)"
  by (simp add: getTimestamp_def elapsed_ms_lt_1)

lemma getTimestamp_miss:
  "cachedTimestamp s = [] \<or> int (now e) - int (lastTimestampUpdate s) \<ge> 1000000 \<Longrightarrow>
   getTimestamp e s =
     (format_timestamp e (includeDate s),
      s\<lparr>cachedTimestamp := format_timestamp e (includeDate s), lastTimestampUpdate := now e\<rparr>)"
  by (auto simp: getTimestamp_def elapsed_ms_lt_1 Let_def)

text \<open>
  Claim C8, amended. A request made less than one millisecond after the last computation
  (the difference of the two clock readings is under 1000000 nanoseconds), with a cached
  text present, returns the cached text and changes nothing; it does so whatever
  \<open>includeDate\<close> is by then. A request with no cached text, or one millisecond or
  more after the last computation, computes the text from the clock and stores it with
  that clock reading. A computed text is the date and time, or the time alone when
  \<open>includeDate\<close> is off, then a dot, six decimal digits of microseconds and
  \<^verbatim>\<open>" | "\<close>.
\<close>

theorem timestamp_cache:
  "(cachedTimestamp s \<noteq> [] \<and> int (now e) - int (lastTimestampUpdate s) < 1000000
      \<longrightarrow> getTimestamp e s = (cachedTimestamp s, s)) \<and>
   (cachedTimestamp s = [] \<or> int (now e) - int (lastTimestampUpdate s) \<ge> 1000000
      \<longrightarrow> getTimestamp e s =
            (format_timestamp e (includeDate s),
             s\<lparr>cachedTimestamp := format_timestamp e (includeDate s),
               lastTimestampUpdate := now e\<rparr>)) \<and>
   format_timestamp e d =
     (if d then put_time_Ymd_HMS (localtime e (now e div 1000000000))
      else put_time_HMS (localtime e (now e div 1000000000))) @
     ''.'' @ zero_pad 6 (dec ((now e div 1000) mod 1000000)) @ '' | '' \<and>
   length (zero_pad 6 (dec ((now e div 1000) mod 1000000))) = 6 \<and>
   set (zero_pad 6 (dec ((now e div 1000) mod 1000000))) \<subseteq> set ''0123456789''"
proof -
  have "(now e div 1000) mod 1000000 < 10 ^ 6" by simp
  then have "length (dec ((now e div 1000) mod 1000000)) \<le> 6"
    by (intro dec_length) simp_all
  then have l: "length (zero_pad 6 (dec ((now e div 1000) mod 1000000))) = 6"
    by (rule zero_pad_length)
  have g: "set (zero_pad 6 (dec ((now e div 1000) mod 1000000))) \<subseteq> set ''0123456789''"
    by (rule zero_pad_digits) (rule dec_digits)
  have f: "format_timestamp e d =
     (if d then put_time_Ymd_HMS (localtime e (now e div 1000000000))
      else put_time_HMS (localtime e (now e div 1000000000))) @
     ''.'' @ zero_pad 6 (dec ((now e div 1000) mod 1000000)) @ '' | ''"
    by (simp add: format_timestamp_def Let_def)
  from l g f getTimestamp_hit [of s e] getTimestamp_miss [of s e] show ?thesis by blast
qed



lemma replicate_2: "replicate 2 x = [x, x]"
  by (simp add: numeral_2_eq_2)

lemma replicate_5: "replicate 5 x = [x, x, x, x, x]"
  by (simp add: eval_nat_numeral)

lemma stamp_0: "format_timestamp (env_at 0) True = ''2026-10-30 13:05:07.000000 | ''"
  apply (simp add: format_timestamp_def Let_def env_at_def tm0_def put_time_Ymd_HMS_def
      put_time_HMS_def)
  apply (simp add: dec.simps digit_char_def zero_pad_def replicate_5)
  done

lemma stamp_1ms: "format_timestamp (env_at 1000000) True = ''2026-10-30 13:05:07.001000 | ''"
  apply (simp add: format_timestamp_def Let_def env_at_def tm0_def put_time_Ymd_HMS_def
      put_time_HMS_def)
  apply (simp add: dec.simps digit_char_def zero_pad_def replicate_2)
  done

lemma first_stamp:
  "getTimestamp (env_at 0) LogBuffer_init =
     (''2026-10-30 13:05:07.000000 | '',
      LogBuffer_init\<lparr>cachedTimestamp := ''2026-10-30 13:05:07.000000 | '',
        lastTimestampUpdate := 1793365507000000000\<rparr>)"
proof -
  have "cachedTimestamp LogBuffer_init = [] \<or>
      int (now (env_at 0)) - int (lastTimestampUpdate LogBuffer_init) \<ge> 1000000"
    by (simp add: LogBuffer_init_def)
  from getTimestamp_miss [OF this] show ?thesis
    by (simp add: stamp_0 LogBuffer_init_def) (simp add: env_at_def)
qed

theorem timestamp_cache_witness:
  "cachedTimestamp (snd (getTimestamp (env_at 0) LogBuffer_init)) \<noteq> [] \<and>
   int (now (env_at 900000)) -
     int (lastTimestampUpdate (snd (getTimestamp (env_at 0) LogBuffer_init))) < 1000000 \<and>
   fst (getTimestamp (env_at 900000) (snd (getTimestamp (env_at 0) LogBuffer_init)))
     = ''2026-10-30 13:05:07.000000 | '' \<and>
   int (now (env_at 1000000)) -
     int (lastTimestampUpdate (snd (getTimestamp (env_at 0) LogBuffer_init))) \<ge> 1000000 \<and>
   fst (getTimestamp (env_at 1000000) (snd (getTimestamp (env_at 0) LogBuffer_init)))
     = ''2026-10-30 13:05:07.001000 | ''"
proof -
  let ?s = "snd (getTimestamp (env_at 0) LogBuffer_init)"
  have c: "cachedTimestamp ?s = ''2026-10-30 13:05:07.000000 | ''"
    and u: "lastTimestampUpdate ?s = 1793365507000000000"
    and d: "includeDate ?s" by (simp_all add: first_stamp) (simp add: LogBuffer_init_def)
  have h1: "cachedTimestamp ?s \<noteq> []" unfolding c by simp
  have h2: "int (now (env_at 900000)) - int (lastTimestampUpdate ?s) < 1000000"
    unfolding u by (simp add: env_at_def)
  have h3: "int (now (env_at 1000000)) - int (lastTimestampUpdate ?s) \<ge> 1000000"
    unfolding u by (simp add: env_at_def)
  from timestamp_cache [of ?s "env_at 900000"] h1 h2
  have a: "fst (getTimestamp (env_at 900000) ?s) = ''2026-10-30 13:05:07.000000 | ''"
    using c by simp
  from timestamp_cache [of ?s "env_at 1000000"] h3
  have b: "fst (getTimestamp (env_at 1000000) ?s) = ''2026-10-30 13:05:07.001000 | ''"
    using d stamp_1ms by simp
  from h1 h2 h3 a b show ?thesis by blast
qed

text \<open>
  Claim C8 as stated fails: the window is measured from the last computation, not
  between requests. After a computation at 13:05:07.000000, a request 0.9 ms later is
  answered from the cache and one 1.0 ms later is computed afresh; the two requests are
  0.1 ms apart and return different texts.
\<close>

theorem timestamp_window_counterexample:
  "int (now (env_at 1000000)) - int (now (env_at 900000)) < 1000000 \<and>
   fst (getTimestamp (env_at 900000) (snd (getTimestamp (env_at 0) LogBuffer_init)))
     = ''2026-10-30 13:05:07.000000 | '' \<and>
   fst (getTimestamp (env_at 1000000)
          (snd (getTimestamp (env_at 900000) (snd (getTimestamp (env_at 0) LogBuffer_init)))))
     = ''2026-10-30 13:05:07.001000 | ''"
proof -
  let ?s = "snd (getTimestamp (env_at 0) LogBuffer_init)"
  have c: "cachedTimestamp ?s = ''2026-10-30 13:05:07.000000 | ''"
    and u: "lastTimestampUpdate ?s = 1793365507000000000"
    and d: "includeDate ?s" by (simp_all add: first_stamp) (simp add: LogBuffer_init_def)
  have "int (now (env_at 900000)) - int (lastTimestampUpdate ?s) < 1000000"
    unfolding u by (simp add: env_at_def)
  with c have g1: "getTimestamp (env_at 900000) ?s = (''2026-10-30 13:05:07.000000 | '', ?s)"
    using getTimestamp_hit [of ?s "env_at 900000"] by simp
  have "int (now (env_at 1000000)) - int (lastTimestampUpdate ?s) \<ge> 1000000"
    unfolding u by (simp add: env_at_def)
  then have g2: "fst (getTimestamp (env_at 1000000) ?s) = ''2026-10-30 13:05:07.001000 | ''"
    using getTimestamp_miss [of ?s "env_at 1000000"] d stamp_1ms by simp
  have t: "int (now (env_at 1000000)) - int (now (env_at 900000)) < 1000000"
    by (simp add: env_at_def)
  show ?thesis unfolding g1 using g2 t by simp
qed

section \<open>Text that does not fit\<close>

lemma digits_not_NUL: "set s \<subseteq> set ''0123456789'' \<Longrightarrow> NUL \<notin> set s"
  by (auto simp: NUL_def)

lemma dec_not_NUL: "NUL \<notin> set (dec n)"
  by (rule digits_not_NUL) (rule dec_digits)

lemma zero_pad_not_NUL: "NUL \<notin> set (zero_pad w (dec n))"
  by (rule digits_not_NUL) (rule zero_pad_digits, rule dec_digits)

lemma format_timestamp_not_NUL: "NUL \<notin> set (format_timestamp e d)"
  using dec_not_NUL zero_pad_not_NUL
  by (simp add: format_timestamp_def Let_def put_time_Ymd_HMS_def put_time_HMS_def)
     (simp add: NUL_def)

lemma toString_not_NUL: "NUL \<notin> set (toString l)"
  by (cases l) (simp_all add: NUL_def)

lemma getColor_not_NUL: "NUL \<notin> set (getColor l)"
  by (cases l) (simp_all add: NUL_def ESC_def)

lemma record_text_not_NUL: "NUL \<notin> set (record_text s)"
  unfolding record_text_def c_str_def
  using set_takeWhileD [of NUL "\<lambda>c. c \<noteq> NUL" "buffer s"] by blast

lemma fullMessage_not_NUL: "NUL \<notin> set ts \<Longrightarrow> NUL \<notin> set (fullMessage ts s)"
  using toString_not_NUL record_text_not_NUL
  by (simp add: fullMessage_def) (simp add: NUL_def)

text \<open>The first record printed by a fresh object at default settings.\<close>

lemma first_print_stdout:
  assumes "currentLevel s = LOG_INFO" "consoleThreshold s = LOG_VERBOSE" "useColors s"
    "includeDate s" "cachedTimestamp s = []"
  shows "stdout (print e \<lparr>logger = s, stdout = [], disk = d\<rparr>) =
     getColor LOG_INFO @ format_timestamp e True @ ''   INFO | '' @ record_text s @
     (if truncated s then '' [TRUNCATED]'' else []) @ [CHR 0x0A] @ ESC # ''[0m''"
proof -
  have g: "getTimestamp e s = (format_timestamp e True,
      s\<lparr>cachedTimestamp := format_timestamp e True, lastTimestampUpdate := now e\<rparr>)"
    using getTimestamp_miss [of s e] assms by simp
  have m: "c_str (fullMessage (format_timestamp e True) s) = fullMessage (format_timestamp e True) s"
    by (rule c_str_id) (rule fullMessage_not_NUL, rule format_timestamp_not_NUL)
  have c: "c_str (getColor LOG_INFO) = getColor LOG_INFO"
    by (rule c_str_id) (rule getColor_not_NUL)
  show ?thesis
    using assms by (simp add: print_stdout g level_ge_def console_text_def m c del: getColor.simps)
      (simp add: fullMessage_def)
qed

lemma append_text_overflow:
  assumes "NUL \<notin> set text" "BUFFER_SIZE - 1 \<le> length text" "length text < INT_MAX"
  shows "record_bytes (append_text (Some text) LogBuffer_init) = take (BUFFER_SIZE - 1) text"
    and "record_text (append_text (Some text) LogBuffer_init) = take (BUFFER_SIZE - 1) text"
    and "size_used (append_text (Some text) LogBuffer_init) = BUFFER_SIZE - 1"
    and "truncated (append_text (Some text) LogBuffer_init)"
proof -
  let ?s = "append_text (Some text) LogBuffer_init"
  have r: "fmt_s text = text @ '' ''" using assms(1) by (simp add: fmt_s_def c_str_id)
  have e: "?s = format_into (text @ '' '') LogBuffer_init"
    by (simp add: append_text_def r BUFFER_SIZE_def)
  have i: "length (text @ '' '') \<le> INT_MAX" using assms(3) by simp
  note f = format_into_record [OF wf_init i]
  show b: "record_bytes ?s = take (BUFFER_SIZE - 1) text"
    unfolding e using f(1) assms(2) by simp
  show t: "truncated ?s" unfolding e using f(3) assms(2) by simp
  have w: "wf_buffer ?s" unfolding e by (rule f(2))
  have "NUL \<notin> set (record_bytes ?s)" unfolding b using assms(1) by (auto dest: in_set_takeD)
  from record_text_eq [OF w this] b show "record_text ?s = take (BUFFER_SIZE - 1) text" by simp
  from wf_size [OF w] b assms(2) show "size_used ?s = BUFFER_SIZE - 1" by simp
qed

lemma append_string_view_overflow:
  assumes "BUFFER_SIZE - 1 \<le> length text"
  shows "append_string_view text LogBuffer_init = LogBuffer_init\<lparr>truncated := True\<rparr>"
proof -
  have "size_t_sub (size_t_sub BUFFER_SIZE (size_used LogBuffer_init)) 1 = BUFFER_SIZE - 1 - 0"
    using available_eq [of 0] by (simp add: BUFFER_SIZE_def)
  moreover have "text \<noteq> []" using assms by (auto simp: BUFFER_SIZE_def)
  ultimately show ?thesis using assms by (simp add: append_string_view_def)
qed

lemma record_text_init: "record_text (LogBuffer_init\<lparr>truncated := b\<rparr>) = []"
  by (simp add: record_text_def c_str_def LogBuffer_init_def BUFFER_SIZE_def)

lemma sys_init_logger:
  "sys_init\<lparr>logger := s\<rparr> = \<lparr>logger = s, stdout = [], disk = (\<lambda>_. None)\<rparr>"
  by (simp add: sys_init_def)

lemma settings_after_append:
  "currentLevel (append_value v LogBuffer_init) = LOG_INFO"
  "consoleThreshold (append_value v LogBuffer_init) = LOG_VERBOSE"
  "useColors (append_value v LogBuffer_init)"
  "includeDate (append_value v LogBuffer_init)"
  "cachedTimestamp (append_value v LogBuffer_init) = []"
  by (simp_all add: LogBuffer_init_def del: append_value.simps)

text \<open>
  Claim C4, amended. A text of 5000 characters (none of them the terminator) appended to
  an empty record of a fresh object: as null-terminated text or as \<^verbatim>\<open>std::string\<close>
  the record holds its first 4095 characters, the count is 4095 and \<open>truncated\<close> is
  set; as \<^verbatim>\<open>std::string_view\<close> nothing is stored, the count stays 0 and
  \<open>truncated\<close> is set. In both cases the line \<^verbatim>\<open>print\<close> then sends to standard
  output ends with \<^verbatim>\<open>" [TRUNCATED]"\<close>, the newline and the colour reset.
\<close>

theorem text_overflow:
  assumes "length text = 5000" and "NUL \<notin> set text"
  shows
    "record_text (append_text (Some text) LogBuffer_init) = take 4095 text \<and>
     size_used (append_text (Some text) LogBuffer_init) = 4095 \<and>
     truncated (append_text (Some text) LogBuffer_init) \<and>
     append_string text LogBuffer_init = append_text (Some text) LogBuffer_init \<and>
     record_text (append_string_view text LogBuffer_init) = [] \<and>
     size_used (append_string_view text LogBuffer_init) = 0 \<and>
     truncated (append_string_view text LogBuffer_init) \<and>
     stdout (print e (sys_init\<lparr>logger := append_text (Some text) LogBuffer_init\<rparr>)) =
       getColor LOG_INFO @ format_timestamp e True @ ''   INFO | '' @ take 4095 text @
       '' [TRUNCATED]'' @ [CHR 0x0A] @ ESC # ''[0m'' \<and>
     stdout (print e (sys_init\<lparr>logger := append_string_view text LogBuffer_init\<rparr>)) =
       getColor LOG_INFO @ format_timestamp e True @ ''   INFO | '' @
       '' [TRUNCATED]'' @ [CHR 0x0A] @ ESC # ''[0m''"
proof -
  let ?s = "append_text (Some text) LogBuffer_init"
  let ?v = "append_string_view text LogBuffer_init"
  have l: "BUFFER_SIZE - 1 \<le> length text" "length text < INT_MAX"
    using assms(1) by (simp_all add: BUFFER_SIZE_def INT_MAX_def)
  note o = append_text_overflow [OF assms(2) l]
  have 1: "record_text ?s = take 4095 text" "size_used ?s = 4095" "truncated ?s"
    using o by (simp_all add: BUFFER_SIZE_def)
  have 2: "append_string text LogBuffer_init = ?s"
    using assms(1) by (auto simp: append_string_def)
  have v: "?v = LogBuffer_init\<lparr>truncated := True\<rparr>"
    by (rule append_string_view_overflow) (rule l(1))
  have 3: "record_text ?v = []" "size_used ?v = 0" "truncated ?v"
    unfolding v by (simp_all add: record_text_init)
  have 4: "stdout (print e (sys_init\<lparr>logger := ?s\<rparr>)) =
       getColor LOG_INFO @ format_timestamp e True @ ''   INFO | '' @ take 4095 text @
       '' [TRUNCATED]'' @ [CHR 0x0A] @ ESC # ''[0m''"
    unfolding sys_init_logger
    using first_print_stdout [of ?s e "\<lambda>_. None"] settings_after_append [of "VText (Some text)"] 1
    by (simp del: getColor.simps)
  have 5: "stdout (print e (sys_init\<lparr>logger := ?v\<rparr>)) =
       getColor LOG_INFO @ format_timestamp e True @ ''   INFO | '' @
       '' [TRUNCATED]'' @ [CHR 0x0A] @ ESC # ''[0m''"
    unfolding sys_init_logger
    using first_print_stdout [of ?v e "\<lambda>_. None"] settings_after_append [of "VStringView text"] 3
    by (simp del: getColor.simps)
  from 1 2 3 4 5 show ?thesis by blast
qed

theorem text_overflow_witness:
  "length (replicate 5000 (CHR ''a'')) = 5000 \<and>
   NUL \<notin> set (replicate 5000 (CHR ''a'')) \<and>
   record_text (append_text (Some (replicate 5000 (CHR ''a''))) LogBuffer_init)
     = replicate 4095 (CHR ''a'') \<and>
   truncated (append_text (Some (replicate 5000 (CHR ''a''))) LogBuffer_init) \<and>
   truncated (append_string_view (replicate 5000 (CHR ''a'')) LogBuffer_init)"
proof -
  have h: "length (replicate 5000 (CHR ''a'')) = 5000" "NUL \<notin> set (replicate 5000 (CHR ''a''))"
    by (simp_all add: NUL_def)
  from text_overflow [OF h] h show ?thesis by simp
qed

text \<open>
  Claim C4 as stated fails for the \<^verbatim>\<open>std::string_view\<close> overload: a view that does
  not fit is refused whole, so the record holds no prefix of it.
\<close>

theorem string_view_overflow_counterexample:
  "size_used (append_string_view (replicate 5000 (CHR ''a'')) LogBuffer_init) = 0 \<and>
   record_text (append_string_view (replicate 5000 (CHR ''a'')) LogBuffer_init) = [] \<and>
   truncated (append_string_view (replicate 5000 (CHR ''a'')) LogBuffer_init)"
proof -
  have "BUFFER_SIZE - 1 \<le> length (replicate 5000 (CHR ''a''))" by (simp add: BUFFER_SIZE_def)
  from append_string_view_overflow [OF this] show ?thesis by (simp add: record_text_init)
qed

section \<open>Empty and null text\<close>

text \<open>
  Claim C7, amended. In every state, appending an empty \<^verbatim>\<open>std::string\<close> or an empty
  \<^verbatim>\<open>std::string_view\<close> changes nothing. Appending a null text pointer never changes
  the array or the count and has no failing path; it changes nothing at all while the
  count is below \<open>BUFFER_SIZE - 1\<close>, and in a full buffer it sets \<open>truncated\<close>.
\<close>

theorem empty_and_null_text:
  "append_string [] s = s \<and>
   append_string_view [] s = s \<and>
   buffer (append_text None s) = buffer s \<and>
   size_used (append_text None s) = size_used s \<and>
   (size_used s < BUFFER_SIZE - 1 \<longrightarrow> append_text None s = s) \<and>
   (size_used s \<ge> BUFFER_SIZE - 1 \<longrightarrow> append_text None s = s\<lparr>truncated := True\<rparr>)"
  by (simp add: append_string_def append_string_view_def append_text_def)

theorem empty_and_null_text_witness:
  "size_used LogBuffer_init < BUFFER_SIZE - 1 \<and>
   append_text None LogBuffer_init = LogBuffer_init \<and>
   size_used full_record \<ge> BUFFER_SIZE - 1 \<and>
   append_text None full_record = full_record\<lparr>truncated := True\<rparr>"
proof -
  have h: "size_used LogBuffer_init < BUFFER_SIZE - 1" by (simp add: BUFFER_SIZE_def)
  have a: "admits (size_used LogBuffer_init) (VText (Some (replicate 4094 (CHR ''a''))))"
    by (simp add: admits_def fmt_s_def c_str_def NUL_def BUFFER_SIZE_def)
  from append_value_admitted [OF wf_init a]
  have g: "size_used full_record \<ge> BUFFER_SIZE - 1"
    by (simp add: full_record_def fmt_s_def c_str_def NUL_def BUFFER_SIZE_def)
  from empty_and_null_text [of LogBuffer_init] empty_and_null_text [of full_record] h g
  show ?thesis by blast
qed

text \<open>
  Claim C7 as stated fails: a text of 4094 characters fills the record to 4095 bytes
  without truncation, and a null pointer appended then sets \<open>truncated\<close>.
\<close>

theorem null_text_counterexample:
  "size_used full_record = 4095 \<and> \<not> truncated full_record \<and>
   truncated (append_text None full_record)"
proof -
  have a: "admits (size_used LogBuffer_init) (VText (Some (replicate 4094 (CHR ''a''))))"
    by (simp add: admits_def fmt_s_def c_str_def NUL_def BUFFER_SIZE_def)
  from append_value_admitted [OF wf_init a]
  have s: "size_used full_record = 4095" and t: "\<not> truncated full_record"
    by (simp_all add: full_record_def fmt_s_def c_str_def NUL_def)
  from s have "truncated (append_text None full_record)"
    by (simp add: append_text_def BUFFER_SIZE_def)
  with s t show ?thesis by blast
qed

text \<open>An empty null-terminated text is not covered by the theorem above: the overload
  has no emptiness check and stores the separator.\<close>

lemma empty_c_string_appends_space:
  "record_bytes (append_text (Some []) LogBuffer_init) = '' '' \<and>
   size_used (append_text (Some []) LogBuffer_init) = 1"
proof -
  have a: "admits (size_used LogBuffer_init) (VText (Some []))"
    by (simp add: admits_def fmt_s_def c_str_def BUFFER_SIZE_def)
  from append_value_admitted [OF wf_init a] show ?thesis
    by (simp add: fmt_s_def c_str_def)
qed

section \<open>Headroom and the width of a value\<close>

lemma hex_upper_length: "0 < k \<Longrightarrow> n < 16 ^ k \<Longrightarrow> length (hex_upper n) \<le> k"
proof (induction k arbitrary: n)
  case 0
  then show ?case by simp
next
  case (Suc k)
  show ?case
  proof (cases "n < 16")
    case True
    then show ?thesis by (subst hex_upper.simps) simp
  next
    case False
    then have k: "0 < k" using Suc.prems(2) by (cases k) simp_all
    have "n div 16 < 16 ^ k" using Suc.prems(2) by (simp add: less_mult_imp_div_less mult.commute)
    from Suc.IH [OF k this] False show ?thesis by (subst hex_upper.simps) simp
  qed
qed

lemma hex_lower_length: "0 < k \<Longrightarrow> n < 16 ^ k \<Longrightarrow> length (hex_lower n) \<le> k"
proof (induction k arbitrary: n)
  case 0
  then show ?case by simp
next
  case (Suc k)
  show ?case
  proof (cases "n < 16")
    case True
    then show ?thesis by (subst hex_lower.simps) simp
  next
    case False
    then have k: "0 < k" using Suc.prems(2) by (cases k) simp_all
    have "n div 16 < 16 ^ k" using Suc.prems(2) by (simp add: less_mult_imp_div_less mult.commute)
    from Suc.IH [OF k this] False show ?thesis by (subst hex_lower.simps) simp
  qed
qed

lemma unat_64_bound: "unat (w :: 64 word) < 2 ^ 64"
  using unsigned_less [of w, where ?'a = nat] by simp

lemma length_dec_unat: "length (dec (unat (w :: 64 word))) \<le> 20"
proof -
  have "unat w < 10 ^ 20" using unat_64_bound [of w] by simp
  then show ?thesis by (intro dec_length) simp_all
qed

lemma length_dec_int_sint: "length (dec_int (sint (w :: 64 word))) \<le> 20"
proof -
  have "- (2 ^ 63) \<le> sint w" "sint w < 2 ^ 63"
    using sint_ge [of w] sint_lt [of w] by simp_all
  then have "nat (- sint w) < 10 ^ 19" "nat (sint w) < 10 ^ 19" by simp_all
  then have "length (dec (nat (- sint w))) \<le> 19" "length (dec (nat (sint w))) \<le> 19"
    by (auto intro!: dec_length)
  then show ?thesis by (simp add: dec_int_def)
qed

lemma length_hex_unat: "length (hex_upper (unat (w :: 64 word))) \<le> 16"
proof -
  have "unat w < 16 ^ 16" using unat_64_bound [of w] by simp
  then show ?thesis by (intro hex_upper_length) simp_all
qed

lemma length_hex_lower_unat: "length (hex_lower (unat (w :: 64 word))) \<le> 16"
proof -
  have "unat w < 16 ^ 16" using unat_64_bound [of w] by simp
  then show ?thesis by (intro hex_lower_length) simp_all
qed

lemma rendered_within_reserve:
  assumes "fixed_width v"
  shows "length (rendered v) \<le> reserve v"
proof (cases v)
  case (VChar c)
  then show ?thesis by (simp add: fmt_c_def)
next
  case (VBool b)
  then show ?thesis by (simp add: fmt_s_def c_str_def NUL_def)
next
  case (VIntegral k w)
  then show ?thesis using length_dec_unat [of w] length_dec_int_sint [of w]
    by (cases k) (simp_all add: fmt_zu_def fmt_lld_def fmt_llu_def)
next
  case (VHex k w)
  then show ?thesis using length_hex_unat [of w]
    by (cases k) (simp_all add: fmt_zX_def fmt_llX_def)
next
  case (VPointer a)
  then show ?thesis using length_hex_lower_unat [of a] by (simp add: fmt_p_def)
qed (use assms in simp_all)

lemma fixed_width_refused:
  assumes "fixed_width v" "\<not> size_used s + reserve v < BUFFER_SIZE"
  shows "append_value v s = s\<lparr>truncated := True\<rparr>"
  using assms
  by (cases v)
     (simp_all add: append_char_def append_bool_def append_integral_def appendHex_def
        append_pointer_def BUFFER_SIZE_def)

text \<open>The appends whose headroom covers their widest text are all or nothing.\<close>

lemma fixed_width_all_or_nothing:
  assumes "wf_buffer s" "fixed_width v"
  shows "if size_used s + reserve v < BUFFER_SIZE
         then record_bytes (append_value v s) = record_bytes s @ rendered v \<and>
              truncated (append_value v s) = truncated s
         else append_value v s = s\<lparr>truncated := True\<rparr>"
proof (cases "size_used s + reserve v < BUFFER_SIZE")
  case True
  with rendered_within_reserve [OF assms(2)] have "admits (size_used s) v"
    by (simp add: admits_def)
  from append_value_admitted [OF assms(1) this] True show ?thesis by simp
next
  case False
  with fixed_width_refused [OF assms(2)] show ?thesis by simp
qed

lemma replicate_7: "replicate 7 x = [x, x, x, x, x, x, x]"
  by (simp add: eval_nat_numeral)

lemma fmt_f8_2_70: "fmt_f8 (Finite False 1 70) = ''1180591620717411303424.00000000 ''"
  apply (simp add: scaled8_def sign_text_def)
  apply (simp add: dec.simps digit_char_def zero_pad_def replicate_7)
  done


text \<open>
  Claim C2 at a failing input. The floating-point overload reserves 30 bytes, but
  \<^verbatim>\<open>"%.8f "\<close> of \<open>2 ^ 70\<close> is 32 bytes long. With 4065 bytes in the record the
  guard passes (4065 is below \<open>BUFFER_SIZE - 30\<close>), \<^verbatim>\<open>snprintf\<close> stores the first
  30 bytes of the text, the count reaches 4095 and \<open>truncated\<close> is set: the value is
  written in part.
\<close>

theorem float_partial_write:
  "is_double (Finite False 1 70) \<and>
   size_used nearly_full = 4065 \<and>
   \<not> truncated nearly_full \<and>
   size_used nearly_full + reserve (VFloating (Finite False 1 70)) < BUFFER_SIZE \<and>
   rendered (VFloating (Finite False 1 70)) = ''1180591620717411303424.00000000 '' \<and>
   size_used (append_floating (Finite False 1 70) nearly_full) = 4095 \<and>
   truncated (append_floating (Finite False 1 70) nearly_full) \<and>
   record_bytes (append_floating (Finite False 1 70) nearly_full) =
     record_bytes nearly_full @ ''1180591620717411303424.0000000''"
proof -
  let ?r = "''1180591620717411303424.00000000 ''"
  have a: "admits (size_used LogBuffer_init) (VString (replicate 4064 (CHR ''a'')))"
    by (simp add: admits_def fmt_s_def c_str_def NUL_def BUFFER_SIZE_def)
  from append_value_admitted [OF wf_init a]
  have s: "size_used nearly_full = 4065" and t: "\<not> truncated nearly_full"
    and w: "wf_buffer nearly_full"
    by (simp_all add: nearly_full_def fmt_s_def c_str_def NUL_def)
  have g: "size_used nearly_full + reserve (VFloating (Finite False 1 70)) < BUFFER_SIZE"
    unfolding s by (simp add: BUFFER_SIZE_def)
  have e: "append_floating (Finite False 1 70) nearly_full = format_into ?r nearly_full"
    unfolding append_floating_def fmt_f8_2_70 using s by (simp add: BUFFER_SIZE_def)
  have i: "length ?r \<le> INT_MAX" by (simp add: INT_MAX_def)
  note f = format_into_record [OF w i]
  have b: "record_bytes (format_into ?r nearly_full) =
      record_bytes nearly_full @ ''1180591620717411303424.0000000''"
    using f(1) unfolding s by (simp add: BUFFER_SIZE_def)
  have u: "truncated (format_into ?r nearly_full)"
    using f(3) unfolding s by (simp add: BUFFER_SIZE_def)
  have "size_used (format_into ?r nearly_full) = length (record_bytes (format_into ?r nearly_full))"
    using wf_size [OF f(2)] by simp
  also have "\<dots> = 4095" unfolding b using wf_size [OF w] s by simp
  finally have n: "size_used (format_into ?r nearly_full) = 4095" .
  have r: "rendered (VFloating (Finite False 1 70)) = ?r"
    using fmt_f8_2_70 by simp
  have d: "is_double (Finite False 1 70)" by simp
  from d s t g r n u b show ?thesis unfolding e by blast
qed

end
